theory Spec2Isabelle
  imports Main "HOL-Library.Char_ord" "HOL-Library.List_Lexorder"
begin

section \<open>Scene search of S1\_NRB (\<^verbatim>\<open>S1_NRB/search.py\<close>)\<close>

text \<open>
  The theory embeds the scene search module: the STAC catalog adapter with its retry
  loops and duplicate resolution, the ASF cross-check query, the tile-driven scene
  selection and the acquisition completeness check. Python exceptions are values of
  the type \<open>error\<close>; a function that may raise returns \<open>error + 'a\<close> with \<open>Inl\<close> the
  exception. Catalog backends, the file system and the collaborators imported from other
  packages are parameters of the functions that call them.
\<close>

subsection \<open>Exceptions\<close>

datatype error =
    APIError string
  | TypeError string
  | AttributeError
  | IndexError
  | ValueError
  | KeyError
  | RuntimeError string
  | SceneNotFound string
  | OtherError string

text \<open>
  \<open>SceneNotFound p\<close> is the \<^verbatim>\<open>RuntimeError('scene does not exist locally:', p)\<close> of
  \<^verbatim>\<open>STACArchive.select\<close>; \<open>RuntimeError\<close> carries the message of the completeness check;
  \<open>OtherError\<close> stands for any exception of a collaborator that is none of the above.
\<close>

fun is_APIError :: "error \<Rightarrow> bool" where
  "is_APIError (APIError m) = True"
| "is_APIError e = False"

subsection \<open>Retry loops of the catalog adapter\<close>

text \<open>
  \<^verbatim>\<open>self.max_tries = 300\<close> in \<^verbatim>\<open>STACArchive.__init__\<close>.
\<close>

definition max_tries :: nat where
  "max_tries = 300"

text \<open>
  A backend call is a function from the number of the attempt (counted from 1) to what
  that attempt yields. The state of a loop is the counter and the seconds slept so far
  (\<^verbatim>\<open>time.sleep(1)\<close> adds one); a loop returns the outcome, the number of attempts made
  and the seconds slept.

  \<^verbatim>\<open>_open_catalog\<close>: \<^verbatim>\<open>i = 1; while True: try: Client.open(url); break
  except APIError: if i < max_tries: i += 1; time.sleep(1) else: raise\<close>.
  Any other exception is not caught and leaves the loop at once.
\<close>

function open_catalog_loop ::
  "(nat \<Rightarrow> error + 'c) \<Rightarrow> nat \<Rightarrow> nat \<Rightarrow> nat \<Rightarrow> (error + 'c) \<times> nat \<times> nat" where
  "open_catalog_loop client_open mt i slept =
     (case client_open i of
        Inr catalog \<Rightarrow> (Inr catalog, i, slept)
      | Inl e \<Rightarrow>
          if is_APIError e then
            (if i < mt then open_catalog_loop client_open mt (i + 1) (slept + 1)
             else (Inl e, i, slept))
          else (Inl e, i, slept))"
  by pat_completeness auto
termination
  by (relation "measure (\<lambda>(c, mt, i, s). mt - i)") auto

declare open_catalog_loop.simps [simp del]

definition open_catalog :: "(nat \<Rightarrow> error + 'c) \<Rightarrow> (error + 'c) \<times> nat \<times> nat" where
  "open_catalog client_open = open_catalog_loop client_open max_tries 1 0"

text \<open>
  The search loop of \<^verbatim>\<open>STACArchive.select\<close>: \<^verbatim>\<open>t = 1; while True: try:
  result = list(catalog.search(...).items()); break except APIError: if t < max_tries:
  t += 1; time.sleep(1) else: raise\<close>.
\<close>

function search_loop ::
  "(nat \<Rightarrow> error + 'r) \<Rightarrow> nat \<Rightarrow> nat \<Rightarrow> nat \<Rightarrow> (error + 'r) \<times> nat \<times> nat" where
  "search_loop catalog_search mt t slept =
     (case catalog_search t of
        Inr result \<Rightarrow> (Inr result, t, slept)
      | Inl e \<Rightarrow>
          if is_APIError e then
            (if t < mt then search_loop catalog_search mt (t + 1) (slept + 1)
             else (Inl e, t, slept))
          else (Inl e, t, slept))"
  by pat_completeness auto
termination
  by (relation "measure (\<lambda>(c, mt, t, s). mt - t)") auto

declare search_loop.simps [simp del]

definition catalog_search_retry :: "(nat \<Rightarrow> error + 'r) \<Rightarrow> (error + 'r) \<times> nat \<times> nat" where
  "catalog_search_retry catalog_search = search_loop catalog_search max_tries 1 0"

text \<open>
  An attempt is transient when it raises \<^verbatim>\<open>pystac_client.exceptions.APIError\<close>, the only
  exception the two loops catch.
\<close>

definition transient :: "error + 'a \<Rightarrow> bool" where
  "transient r = (case r of Inl e \<Rightarrow> is_APIError e | Inr v \<Rightarrow> False)"

subsection \<open>Paths and the scene name pattern\<close>

text \<open>
  A \<^verbatim>\<open>datetime\<close> is a number of microseconds on the time line; the strings
  \<^verbatim>\<open>YYYYmmddTHHMMSS\<close> of scene records stand for the time they denote (of fixed width
  and made of digits, they compare as strings the way the times compare).
\<close>

type_synonym datetime = int

text \<open>
  \<^verbatim>\<open>os.path.basename\<close> is what follows the last slash; \<^verbatim>\<open>os.path.join(a, b)\<close>, for a
  relative \<open>b\<close>, puts a slash between the two unless \<open>a\<close> is empty or ends with one.
\<close>

definition basename :: "string \<Rightarrow> string" where
  "basename p = rev (takeWhile (\<lambda>c. c \<noteq> CHR ''/'') (rev p))"

definition path_join :: "string \<Rightarrow> string \<Rightarrow> string" where
  "path_join a b = (if a = [] \<or> last a = CHR ''/'' then a @ b else a @ ''/'' @ b)"

text \<open>
  \<^verbatim>\<open>pattern = '([0-9A-Z_]{16})_([0-9T]{15})_([0-9T]{15})'\<close>. Every match has 48
  characters and the classes leave no choice, so \<^verbatim>\<open>re.search\<close> returns the groups of
  the leftmost position at which the pattern matches, or \<^verbatim>\<open>None\<close>.
\<close>

definition is_digit :: "char \<Rightarrow> bool" where
  "is_digit c = (CHR ''0'' \<le> c \<and> c \<le> CHR ''9'')"

definition is_token_char :: "char \<Rightarrow> bool" where
  "is_token_char c = (is_digit c \<or> (CHR ''A'' \<le> c \<and> c \<le> CHR ''Z'') \<or> c = CHR ''_'')"

definition is_time_char :: "char \<Rightarrow> bool" where
  "is_time_char c = (is_digit c \<or> c = CHR ''T'')"

type_synonym triple = "string \<times> string \<times> string"

definition match_here :: "string \<Rightarrow> triple option" where
  "match_here s =
     (let tok = take 16 s; start = take 15 (drop 17 s); stop = take 15 (drop 33 s)
      in if 48 \<le> length s \<and> list_all is_token_char tok \<and> s ! 16 = CHR ''_'' \<and>
            list_all is_time_char start \<and> s ! 32 = CHR ''_'' \<and> list_all is_time_char stop
         then Some (tok, start, stop) else None)"

fun re_search_pattern :: "string \<Rightarrow> triple option" where
  "re_search_pattern [] = None"
| "re_search_pattern (c # cs) =
     (case match_here (c # cs) of Some g \<Rightarrow> Some g | None \<Rightarrow> re_search_pattern cs)"

text \<open>
  \<^verbatim>\<open>re.search(pattern, os.path.basename(scene))\<close>; \<^verbatim>\<open>.groups()\<close> on \<^verbatim>\<open>None\<close> raises
  \<^verbatim>\<open>AttributeError\<close>.
\<close>

definition scene_key :: "string \<Rightarrow> triple option" where
  "scene_key scene = re_search_pattern (basename scene)"

subsection \<open>Duplicate resolution: \<^verbatim>\<open>STACArchive._filter_duplicates\<close>\<close>

text \<open>
  \<^verbatim>\<open>_get_proc_time\<close> opens \<^verbatim>\<open>manifest.safe\<close> in the scene folder and parses the
  \<^verbatim>\<open>start\<close> attribute of its processing element. The file system is the parameter
  \<open>read_manifest\<close>: from the path of a manifest to the time it declares, or to the
  exception that opening, parsing or \<^verbatim>\<open>strptime\<close> raises.
\<close>

definition get_proc_time :: "(string \<Rightarrow> error + datetime) \<Rightarrow> string \<Rightarrow> error + datetime" where
  "get_proc_time read_manifest scene = read_manifest (path_join scene ''manifest.safe'')"

text \<open>\<^verbatim>\<open>tproc = [self._get_proc_time(x) for x in group]\<close>: the first exception ends it.\<close>

fun proc_times :: "(string \<Rightarrow> error + datetime) \<Rightarrow> string list \<Rightarrow> error + datetime list" where
  "proc_times fs [] = Inr []"
| "proc_times fs (x # xs) =
     (case get_proc_time fs x of
        Inl e \<Rightarrow> Inl e
      | Inr t \<Rightarrow> (case proc_times fs xs of Inl e \<Rightarrow> Inl e | Inr ts \<Rightarrow> Inr (t # ts)))"

text \<open>
  Python's \<^verbatim>\<open>max\<close> and \<^verbatim>\<open>min\<close> of a list (\<^verbatim>\<open>ValueError\<close> when empty), \<^verbatim>\<open>list.index\<close>
  (the first position, \<^verbatim>\<open>ValueError\<close> when absent) and indexing (\<^verbatim>\<open>IndexError\<close> out of
  range).
\<close>

fun py_max :: "'a::linorder list \<Rightarrow> error + 'a" where
  "py_max [] = Inl ValueError"
| "py_max (x # xs) = Inr (fold max xs x)"

fun py_min :: "'a::linorder list \<Rightarrow> error + 'a" where
  "py_min [] = Inl ValueError"
| "py_min (x # xs) = Inr (fold min xs x)"

fun py_index :: "'a list \<Rightarrow> 'a \<Rightarrow> error + nat" where
  "py_index [] v = Inl ValueError"
| "py_index (x # xs) v =
     (if x = v then Inr 0 else (case py_index xs v of Inl e \<Rightarrow> Inl e | Inr i \<Rightarrow> Inr (Suc i)))"

definition py_nth :: "'a list \<Rightarrow> nat \<Rightarrow> error + 'a" where
  "py_nth xs i = (if i < length xs then Inr (xs ! i) else Inl IndexError)"

text \<open>
  Lines 106 to 110: \<^verbatim>\<open>if len(group) > 1: tproc = [...];
  keep.append(group[tproc.index(max(tproc))]) else: keep.append(group[0])\<close>.
\<close>

definition keep_of_group :: "(string \<Rightarrow> error + datetime) \<Rightarrow> string list \<Rightarrow> error + string" where
  "keep_of_group fs grp =
     (if length grp > 1 then
        (case proc_times fs grp of
           Inl e \<Rightarrow> Inl e
         | Inr tproc \<Rightarrow>
             (case py_max tproc of
                Inl e \<Rightarrow> Inl e
              | Inr m \<Rightarrow> (case py_index tproc m of Inl e \<Rightarrow> Inl e | Inr i \<Rightarrow> py_nth grp i)))
      else py_nth grp 0)"

text \<open>
  The inner loop over \<open>j\<close>. Its argument is \<^verbatim>\<open>tmp[j:]\<close>; it returns what it appended to
  \<^verbatim>\<open>group\<close> and the rest of the list, \<^verbatim>\<open>tmp[j:]\<close> at the \<^verbatim>\<open>break\<close> or at the end.
\<close>

fun collect_group :: "triple \<Rightarrow> string list \<Rightarrow> error + (string list \<times> string list)" where
  "collect_group match1 [] = Inr ([], [])"
| "collect_group match1 (x # xs) =
     (case scene_key x of
        None \<Rightarrow> Inl AttributeError
      | Some match2 \<Rightarrow>
          if match1 = match2 then
            (case collect_group match1 xs of
               Inl e \<Rightarrow> Inl e
             | Inr (grp, rest) \<Rightarrow> Inr (x # grp, rest))
          else Inr ([], x # xs))"

lemma collect_group_length:
  "collect_group m xs = Inr (grp, rest) \<Longrightarrow> length rest \<le> length xs"
  by (induction xs arbitrary: grp rest)
     (auto split: option.splits if_splits sum.splits prod.splits)

text \<open>
  The outer loop over \<open>i\<close>; its list argument is \<^verbatim>\<open>tmp[i:]\<close>, and \<^verbatim>\<open>i = j\<close> continues
  with the rest the inner loop left.
\<close>

function filter_loop ::
  "(string \<Rightarrow> error + datetime) \<Rightarrow> string list \<Rightarrow> string list \<Rightarrow> error + string list" where
  "filter_loop fs [] keep = Inr keep"
| "filter_loop fs (x # xs) keep =
     (case scene_key x of
        None \<Rightarrow> Inl AttributeError
      | Some match1 \<Rightarrow>
          (case collect_group match1 xs of
             Inl e \<Rightarrow> Inl e
           | Inr (grp, rest) \<Rightarrow>
               (case keep_of_group fs (x # grp) of
                  Inl e \<Rightarrow> Inl e
                | Inr k \<Rightarrow> filter_loop fs rest (keep @ [k]))))"
  by pat_completeness auto
termination
  by (relation "measure (\<lambda>(fs, tmp, keep). length tmp)")
     (auto dest: collect_group_length)

declare filter_loop.simps [simp del]

text \<open>\<^verbatim>\<open>tmp = sorted(scenes)\<close>: Python compares strings by code point, lexicographically.\<close>

definition filter_duplicates :: "(string \<Rightarrow> error + datetime) \<Rightarrow> string list \<Rightarrow> error + string list" where
  "filter_duplicates fs scenes = filter_loop fs (sort scenes) []"

text \<open>
  The grouping in the words of the specification (section 4.2): scan left to right,
  grouping consecutive entries whose triples match. It is compared with the loops above.
\<close>

function consecutive_groups :: "('a \<Rightarrow> 'k) \<Rightarrow> 'a list \<Rightarrow> 'a list list" where
  "consecutive_groups f [] = []"
| "consecutive_groups f (x # xs) =
     (x # takeWhile (\<lambda>y. f y = f x) xs) # consecutive_groups f (dropWhile (\<lambda>y. f y = f x) xs)"
  by pat_completeness auto
termination
  by (relation "measure (\<lambda>(f, xs). length xs)")
     (auto simp: less_Suc_eq_le length_dropWhile_le)

declare consecutive_groups.simps [simp del]

text \<open>
  What the resolution is measured against: \<open>k\<close> is the survivor of a group when the
  group is the singleton of \<open>k\<close> or, for a larger group, \<open>k\<close> is its first member whose
  manifest declares the latest processing start.
\<close>

definition readable :: "(string \<Rightarrow> error + datetime) \<Rightarrow> string \<Rightarrow> bool" where
  "readable fs scene = (case get_proc_time fs scene of Inl e \<Rightarrow> False | Inr t \<Rightarrow> True)"

definition not_later :: "(string \<Rightarrow> error + datetime) \<Rightarrow> string \<Rightarrow> string \<Rightarrow> bool" where
  "not_later fs x k =
     (case get_proc_time fs x of
        Inl e \<Rightarrow> False
      | Inr t \<Rightarrow> (case get_proc_time fs k of Inl e \<Rightarrow> False | Inr tk \<Rightarrow> t \<le> tk))"

definition latest_in :: "(string \<Rightarrow> error + datetime) \<Rightarrow> string \<Rightarrow> string list \<Rightarrow> bool" where
  "latest_in fs k grp =
     (if 1 < length grp then
        k \<in> set grp \<and> (\<forall>x\<in>set grp. not_later fs x k) \<and>
        (\<forall>x\<in>set (takeWhile (\<lambda>x. x \<noteq> k) grp). \<not> not_later fs k x)
      else grp = [k])"

definition groups_readable :: "(string \<Rightarrow> error + datetime) \<Rightarrow> string list list \<Rightarrow> bool" where
  "groups_readable fs gs = (\<forall>g\<in>set gs. 1 < length g \<longrightarrow> (\<forall>x\<in>set g. readable fs x))"

text \<open>
  The members of the input with the triple of a scene, in sorted order; and the condition
  under which the scan over the sorted list meets each triple in one run only: sorting
  the locations makes the entries with equal triples adjacent.
\<close>

definition triple_group :: "string list \<Rightarrow> string \<Rightarrow> string list" where
  "triple_group scenes s = filter (\<lambda>x. scene_key x = scene_key s) (sort scenes)"

definition adjacent_when_sorted :: "string list \<Rightarrow> bool" where
  "adjacent_when_sorted scenes = distinct (remdups_adj (map scene_key (sort scenes)))"

subsection \<open>Query arguments and the catalog filter of \<^verbatim>\<open>STACArchive.select\<close>\<close>

text \<open>
  An argument that is a single value or a list of values (\<^verbatim>\<open>str or list[str]\<close>): the
  code wraps a single one into a list (\<^verbatim>\<open>isinstance(val, (str, int))\<close>).
\<close>

datatype 'a arg = Single 'a | Multiple "'a list"

fun arg_values :: "'a arg \<Rightarrow> 'a list" where
  "arg_values (Single v) = [v]"
| "arg_values (Multiple vs) = vs"

text \<open>
  A \<^verbatim>\<open>spatialist.Vector\<close> as far as the search reads it: the tile name it carries
  (\<^verbatim>\<open>mgrs\<close>) and its extent \<open>(xmin, ymin, xmax, ymax)\<close> after reprojection to EPSG 4326,
  in fixed-point units. An argument that is no \<^verbatim>\<open>Vector\<close> is \<open>NotAVector\<close>.
\<close>

record vector =
  mgrs :: string
  extent :: "int \<times> int \<times> int \<times> int"

datatype vector_arg = Vector vector | NotAVector

datatype return_value = RetASF | RetKey string | RetKeys "string list"

text \<open>
  The keyword arguments of a \<^verbatim>\<open>select\<close> call; \<open>None\<close> is an argument left out or passed as
  \<^verbatim>\<open>None\<close>. A date is a \<^verbatim>\<open>datetime\<close> or the string \<^verbatim>\<open>YYYYmmddTHHMMSS\<close> of one; both are
  the time they denote.
\<close>

record select_args =
  q_sensor :: "string arg option"
  q_product :: "string arg option"
  q_acquisition_mode :: "string arg option"
  q_mindate :: "datetime option"
  q_maxdate :: "datetime option"
  q_frameNumber :: "int arg option"
  q_vectorobject :: "vector_arg option"
  q_date_strict :: "bool option"
  q_check_exist :: "bool option"
  q_return_value :: "return_value option"

text \<open>\<^verbatim>\<open>date_strict=True\<close> and \<^verbatim>\<open>check_exist=True\<close> are the defaults of the parameters.\<close>

definition date_strict :: "select_args \<Rightarrow> bool" where
  "date_strict a = (case q_date_strict a of None \<Rightarrow> True | Some b \<Rightarrow> b)"

definition check_exist :: "select_args \<Rightarrow> bool" where
  "check_exist a = (case q_check_exist a of None \<Rightarrow> True | Some b \<Rightarrow> b)"

definition no_args :: select_args where
  "no_args = \<lparr>q_sensor = None, q_product = None, q_acquisition_mode = None, q_mindate = None,
     q_maxdate = None, q_frameNumber = None, q_vectorobject = None, q_date_strict = None,
     q_check_exist = None, q_return_value = None\<rparr>"

text \<open>
  The filter sent to the catalog. \<open>Cmp op p v\<close> is
  \<^verbatim>\<open>{'op': op, 'args': [{'property': p}, v]}\<close>; the literal \<open>Stamp t\<close> is the string
  \<^verbatim>\<open>strftime(t, '%Y%m%dT%H%M%S')\<close>; \<open>SIntersects ring\<close> is the \<^verbatim>\<open>s_intersects\<close> clause on
  the property \<^verbatim>\<open>geometry\<close> with the polygon of that ring.
\<close>

datatype literal = Str string | Stamp datetime

datatype cql =
    Cmp string string literal
  | Or "cql list"
  | And "cql list"
  | SIntersects "(int \<times> int) list"

definition lookup_platform :: "string \<Rightarrow> error + string" where
  "lookup_platform v =
     (if v = ''S1A'' then Inr ''sentinel-1a''
      else if v = ''S1B'' then Inr ''sentinel-1b''
      else Inl KeyError)"

fun map_err :: "('a \<Rightarrow> error + 'b) \<Rightarrow> 'a list \<Rightarrow> error + 'b list" where
  "map_err f [] = Inr []"
| "map_err f (x # xs) =
     (case f x of
        Inl e \<Rightarrow> Inl e
      | Inr y \<Rightarrow> (case map_err f xs of Inl e \<Rightarrow> Inl e | Inr ys \<Rightarrow> Inr (y # ys)))"

text \<open>\<^verbatim>\<open>'{:06X}'.format(v)\<close>: upper-case hexadecimal, zero-padded to six characters, sign included.\<close>

function hex_digits :: "nat \<Rightarrow> string" where
  "hex_digits n =
     (if n < 16 then [''0123456789ABCDEF'' ! n]
      else hex_digits (n div 16) @ [''0123456789ABCDEF'' ! (n mod 16)])"
  by pat_completeness auto
termination
  by (relation "measure id") auto

declare hex_digits.simps [simp del]

definition format_06X :: "int \<Rightarrow> string" where
  "format_06X v =
     (if 0 \<le> v then
        (let d = hex_digits (nat v) in replicate (6 - length d) CHR ''0'' @ d)
      else
        (let d = hex_digits (nat (- v)) in CHR ''-'' # replicate (5 - length d) CHR ''0'' @ d))"

text \<open>\<^verbatim>\<open>if len(args) == 1: arg = args[0] else: arg = {'op': 'or', 'args': args}\<close>.\<close>

definition equals_clauses :: "string \<Rightarrow> literal list \<Rightarrow> cql" where
  "equals_clauses prop vals =
     (case map (\<lambda>v. Cmp ''='' prop v) vals of [a] \<Rightarrow> a | args \<Rightarrow> Or args)"

definition sensor_clause :: "string arg \<Rightarrow> error + cql" where
  "sensor_clause val =
     (case map_err lookup_platform (arg_values val) of
        Inl e \<Rightarrow> Inl e
      | Inr vs \<Rightarrow> Inr (equals_clauses ''platform'' (map Str vs)))"

text \<open>Lines 200 to 213: the two date clauses.\<close>

definition mindate_clause :: "bool \<Rightarrow> datetime \<Rightarrow> cql" where
  "mindate_clause strict val =
     (if strict then Cmp ''>='' ''start_datetime'' (Stamp val)
      else Cmp ''>='' ''end_datetime'' (Stamp val))"

definition maxdate_clause :: "bool \<Rightarrow> datetime \<Rightarrow> cql" where
  "maxdate_clause strict val =
     (if strict then Cmp ''<='' ''end_datetime'' (Stamp val)
      else Cmp ''<='' ''start_datetime'' (Stamp val))"

definition vector_clause :: "vector_arg \<Rightarrow> error + cql" where
  "vector_clause val =
     (case val of
        Vector vec \<Rightarrow>
          (case extent vec of (xmin, ymin, xmax, ymax) \<Rightarrow>
             Inr (SIntersects [(xmin, ymin), (xmin, ymax), (xmax, ymax), (xmax, ymin), (xmin, ymin)]))
      | NotAVector \<Rightarrow>
          Inl (TypeError ''argument vectorobject must be of type spatialist.vector.Vector''))"

text \<open>
  The loop over \<^verbatim>\<open>pars.keys()\<close> runs in the order of the parameters of \<^verbatim>\<open>select\<close>, skips
  the values that are \<^verbatim>\<open>None\<close> and stops at the first exception.
\<close>

fun collect_clauses :: "(error + cql) option list \<Rightarrow> error + cql list" where
  "collect_clauses [] = Inr []"
| "collect_clauses (None # cs) = collect_clauses cs"
| "collect_clauses (Some (Inl e) # cs) = Inl e"
| "collect_clauses (Some (Inr c) # cs) =
     (case collect_clauses cs of Inl e \<Rightarrow> Inl e | Inr r \<Rightarrow> Inr (c # r))"

definition filter_clauses :: "select_args \<Rightarrow> (error + cql) option list" where
  "filter_clauses a =
     [map_option sensor_clause (q_sensor a),
      map_option (\<lambda>v. Inr (equals_clauses ''sar:product_type'' (map Str (arg_values v))))
        (q_product a),
      map_option (\<lambda>v. Inr (equals_clauses ''sar:instrument_mode'' (map Str (arg_values v))))
        (q_acquisition_mode a),
      map_option (\<lambda>v. Inr (mindate_clause (date_strict a) v)) (q_mindate a),
      map_option (\<lambda>v. Inr (maxdate_clause (date_strict a) v)) (q_maxdate a),
      map_option (\<lambda>v. Inr (equals_clauses ''s1:datatake'' (map (\<lambda>n. Str (format_06X n)) (arg_values v))))
        (q_frameNumber a),
      map_option vector_clause (q_vectorobject a)]"

definition build_filter :: "select_args \<Rightarrow> error + cql" where
  "build_filter a =
     (case collect_clauses (filter_clauses a) of Inl e \<Rightarrow> Inl e | Inr cs \<Rightarrow> Inr (And cs))"

text \<open>The clauses of a filter on the two date properties.\<close>

fun is_date_clause :: "cql \<Rightarrow> bool" where
  "is_date_clause (Cmp op p v) = (p = ''start_datetime'' \<or> p = ''end_datetime'')"
| "is_date_clause c = False"

fun date_clauses :: "cql \<Rightarrow> cql list" where
  "date_clauses (And cs) = filter is_date_clause cs"
| "date_clauses c = []"

subsection \<open>Result resolution of \<^verbatim>\<open>STACArchive.select\<close>\<close>

text \<open>
  A catalog item as far as \<^verbatim>\<open>select\<close> reads it: its assets in the order of the
  dictionary, each a key and the \<^verbatim>\<open>href\<close> of the asset.
\<close>

record item =
  assets :: "(string \<times> string) list"

text \<open>
  \<^verbatim>\<open>re.search(r'\.SAFE', href).end()\<close>: the position after the first occurrence of
  \<^verbatim>\<open>.SAFE\<close>, \<open>None\<close> where \<^verbatim>\<open>re.search\<close> finds none (\<^verbatim>\<open>.end()\<close> then raises
  \<^verbatim>\<open>AttributeError\<close>); and \<^verbatim>\<open>re.sub('^file://', '', path)\<close>.
\<close>

fun find_SAFE :: "string \<Rightarrow> nat option" where
  "find_SAFE [] = None"
| "find_SAFE (c # cs) =
     (if take 5 (c # cs) = ''.SAFE'' then Some 5 else map_option Suc (find_SAFE cs))"

definition strip_file_scheme :: "string \<Rightarrow> string" where
  "strip_file_scheme p = (if take 7 p = ''file://'' then drop 7 p else p)"

definition item_path :: "item \<Rightarrow> error + string" where
  "item_path it =
     (case assets it of
        [] \<Rightarrow> Inl IndexError
      | (key, href) # others \<Rightarrow>
          (case find_SAFE href of
             None \<Rightarrow> Inl AttributeError
           | Some n \<Rightarrow> Inr (strip_file_scheme (take n href))))"

text \<open>
  What a STAC archive works on: the search of its catalog in its collections (for a
  filter, the outcome of each attempt), the local file system (\<^verbatim>\<open>Path.exists\<close>,
  \<^verbatim>\<open>os.path.realpath\<close>) and the manifests of the scene folders.
\<close>

record stac_env =
  catalog_search :: "cql \<Rightarrow> nat \<Rightarrow> error + item list"
  path_exists :: "string \<Rightarrow> bool"
  realpath :: "string \<Rightarrow> string"
  read_manifest :: "string \<Rightarrow> error + datetime"

text \<open>Lines 263 to 275, the loop over the items found.\<close>

fun resolve_items :: "stac_env \<Rightarrow> bool \<Rightarrow> item list \<Rightarrow> error + string list" where
  "resolve_items env chk [] = Inr []"
| "resolve_items env chk (it # its) =
     (case item_path it of
        Inl e \<Rightarrow> Inl e
      | Inr path \<Rightarrow>
          if path_exists env path then
            (case resolve_items env chk its of
               Inl e \<Rightarrow> Inl e
             | Inr out \<Rightarrow> Inr (realpath env path # out))
          else if chk then Inl (SceneNotFound path)
          else
            (case resolve_items env chk its of
               Inl e \<Rightarrow> Inl e
             | Inr out \<Rightarrow> Inr (path # out)))"

text \<open>
  \<^verbatim>\<open>STACArchive.select\<close>. It has no parameter \<^verbatim>\<open>return_value\<close>: Python raises
  \<^verbatim>\<open>TypeError\<close> for the unexpected keyword.
\<close>

definition stac_select :: "stac_env \<Rightarrow> select_args \<Rightarrow> error + string list" where
  "stac_select env a =
     (if q_return_value a \<noteq> None then Inl (TypeError ''unexpected keyword argument'')
      else
        (case build_filter a of
           Inl e \<Rightarrow> Inl e
         | Inr flt \<Rightarrow>
             (case fst (catalog_search_retry (catalog_search env flt)) of
                Inl e \<Rightarrow> Inl e
              | Inr result \<Rightarrow>
                  (case resolve_items env (check_exist a) result of
                     Inl e \<Rightarrow> Inl e
                   | Inr out \<Rightarrow> filter_duplicates (read_manifest env) out))))"

subsection \<open>Scene records and the ASF query \<^verbatim>\<open>asf_select\<close>\<close>

text \<open>
  A scene record (\<^verbatim>\<open>pyroSAR.drivers.ID\<close>) as far as the search reads it: the location
  \<^verbatim>\<open>scene\<close>, the attributes of the query, the acquisition times, the two entries
  \<^verbatim>\<open>sliceNumber\<close> and \<^verbatim>\<open>totalSlices\<close> of \<^verbatim>\<open>meta\<close>, and the footprint \<^verbatim>\<open>geometry()\<close>.
\<close>

record ID =
  id_scene :: string
  id_sensor :: string
  id_product :: string
  id_acquisition_mode :: string
  id_start :: datetime
  id_stop :: datetime
  id_sliceNumber :: int
  id_totalSlices :: int
  id_geometry :: vector

text \<open>
  What a \<^verbatim>\<open>select\<close> returns: locations or other string properties, tuples of string
  properties, or scene records.
\<close>

datatype sel_result = Locs "string list" | Tuples "string list list" | Recs "ID list"

text \<open>
  A feature of the GeoJSON answer of \<^verbatim>\<open>asf_search\<close>: its string properties, and the two
  times that \<^verbatim>\<open>date_extract\<close> parses from the properties \<^verbatim>\<open>startTime\<close> and \<^verbatim>\<open>stopTime\<close>.
\<close>

record feature =
  f_properties :: "(string \<times> string) list"
  f_startTime :: datetime
  f_stopTime :: datetime

record asf_query =
  aq_platform :: string
  aq_processingLevel :: "string arg option"
  aq_beamMode :: "string arg option"
  aq_start :: "datetime option"
  aq_end :: "datetime option"
  aq_intersectsWith :: "vector option"

text \<open>
  The ASF service: \<^verbatim>\<open>asf.search(...).geojson()['features']\<close>, and the constructor
  \<^verbatim>\<open>ASF(x)\<close> of a scene record from a feature (it ends in the constructor of
  \<^verbatim>\<open>pyroSAR.drivers.ID\<close>).
\<close>

record asf_env =
  asf_search :: "asf_query \<Rightarrow> error + feature list"
  asf_record :: "feature \<Rightarrow> error + ID"

text \<open>\<^verbatim>\<open>sensor.replace('S1', 'Sentinel-1')\<close>.\<close>

function replace_S1 :: "string \<Rightarrow> string" where
  "replace_S1 [] = []"
| "replace_S1 (c # cs) =
     (if c = CHR ''S'' \<and> take 1 cs = ''1'' then ''Sentinel-1'' @ replace_S1 (drop 1 cs)
      else c # replace_S1 cs)"
  by pat_completeness auto
termination
  by (relation "measure length") auto

text \<open>
  Lines 407 to 410, the list comprehension under \<^verbatim>\<open>date_strict\<close>. A comparison of a
  \<^verbatim>\<open>datetime\<close> with \<^verbatim>\<open>None\<close> raises \<^verbatim>\<open>TypeError\<close>; \<^verbatim>\<open>and\<close> does not evaluate its second
  operand when the first is false.
\<close>

fun strict_features :: "datetime option \<Rightarrow> datetime option \<Rightarrow> feature list \<Rightarrow> error + feature list" where
  "strict_features start stop [] = Inr []"
| "strict_features start stop (x # xs) =
     (case start of
        None \<Rightarrow> Inl (TypeError ''<= not supported'')
      | Some lo \<Rightarrow>
          if lo \<le> f_startTime x then
            (case stop of
               None \<Rightarrow> Inl (TypeError ''<= not supported'')
             | Some hi \<Rightarrow>
                 (case strict_features start stop xs of
                    Inl e \<Rightarrow> Inl e
                  | Inr r \<Rightarrow> Inr (if f_stopTime x \<le> hi then x # r else r)))
          else strict_features start stop xs)"

definition property :: "feature \<Rightarrow> string \<Rightarrow> error + string" where
  "property x key = (case map_of (f_properties x) key of None \<Rightarrow> Inl KeyError | Some v \<Rightarrow> Inr v)"

definition asf_select ::
  "asf_env \<Rightarrow> string arg option \<Rightarrow> string arg option \<Rightarrow> string arg option \<Rightarrow>
   datetime option \<Rightarrow> datetime option \<Rightarrow> vector_arg option \<Rightarrow> return_value \<Rightarrow> bool \<Rightarrow>
   error + sel_result" where
  "asf_select env sensor product acquisition_mode mindate maxdate vectorobject ret strict =
     (let processing_level =
            (if product = Some (Single ''GRD'')
             then Some (Multiple [''GRD_HD'', ''GRD_MD'', ''GRD_MS'', ''GRD_HS'', ''GRD_FD''])
             else product);
          beam_mode =
            (if acquisition_mode = Some (Single ''SM'')
             then Some (Multiple [''S1'', ''S2'', ''S3'', ''S4'', ''S5'', ''S6''])
             else acquisition_mode)
      in case (case vectorobject of
                 None \<Rightarrow> Inr None
               | Some (Vector geom) \<Rightarrow> Inr (Some geom)
               | Some NotAVector \<Rightarrow> Inl AttributeError) of
           Inl e \<Rightarrow> Inl e
         | Inr geometry \<Rightarrow>
             (case sensor of
                Some (Single s) \<Rightarrow>
                  (case asf_search env
                          \<lparr>aq_platform = replace_S1 s, aq_processingLevel = processing_level,
                           aq_beamMode = beam_mode, aq_start = mindate, aq_end = maxdate,
                           aq_intersectsWith = geometry\<rparr> of
                     Inl e \<Rightarrow> Inl e
                   | Inr found \<Rightarrow>
                       (case (if strict then strict_features mindate maxdate found else Inr found) of
                          Inl e \<Rightarrow> Inl e
                        | Inr features \<Rightarrow>
                            (case ret of
                               RetASF \<Rightarrow>
                                 (case map_err (asf_record env) features of
                                    Inl e \<Rightarrow> Inl e
                                  | Inr recs \<Rightarrow> Inr (Recs recs))
                             | RetKey key \<Rightarrow>
                                 (case map_err (\<lambda>x. property x key) features of
                                    Inl e \<Rightarrow> Inl e
                                  | Inr out \<Rightarrow> Inr (Locs (sort out)))
                             | RetKeys keys \<Rightarrow>
                                 (case map_err (\<lambda>x. map_err (property x) keys) features of
                                    Inl e \<Rightarrow> Inl e
                                  | Inr out \<Rightarrow> Inr (Tuples (sort out))))))
              | other \<Rightarrow> Inl AttributeError))"

text \<open>
  \<^verbatim>\<open>ASFArchive.select\<close> passes its parameters on; it has no parameter \<^verbatim>\<open>frameNumber\<close> or
  \<^verbatim>\<open>check_exist\<close>, and \<^verbatim>\<open>return_value\<close> is \<^verbatim>\<open>'url'\<close> unless given.
\<close>

definition asf_archive_select :: "asf_env \<Rightarrow> select_args \<Rightarrow> error + sel_result" where
  "asf_archive_select env a =
     (if q_frameNumber a \<noteq> None \<or> q_check_exist a \<noteq> None
      then Inl (TypeError ''unexpected keyword argument'')
      else asf_select env (q_sensor a) (q_product a) (q_acquisition_mode a) (q_mindate a)
             (q_maxdate a) (q_vectorobject a)
             (case q_return_value a of None \<Rightarrow> RetKey ''url'' | Some r \<Rightarrow> r) (date_strict a))"

subsection \<open>Archives\<close>

text \<open>
  The archive of a search is a \<^verbatim>\<open>STACArchive\<close>, an \<^verbatim>\<open>ASFArchive\<close> or a
  \<^verbatim>\<open>pyroSAR.drivers.Archive\<close>; the latter is its \<^verbatim>\<open>select\<close>, which returns scene locations.
\<close>

datatype archive =
    STACArchive stac_env
  | ASFArchive asf_env
  | Archive "select_args \<Rightarrow> error + string list"

definition archive_select :: "archive \<Rightarrow> select_args \<Rightarrow> error + sel_result" where
  "archive_select arch a =
     (case arch of
        STACArchive env \<Rightarrow> (case stac_select env a of Inl e \<Rightarrow> Inl e | Inr out \<Rightarrow> Inr (Locs out))
      | ASFArchive env \<Rightarrow> asf_archive_select env a
      | Archive sel \<Rightarrow> (case sel a of Inl e \<Rightarrow> Inl e | Inr out \<Rightarrow> Inr (Locs out)))"

fun is_ASFArchive :: "archive \<Rightarrow> bool" where
  "is_ASFArchive (ASFArchive env) = True"
| "is_ASFArchive arch = False"

subsection \<open>Neighbours of a scene: \<^verbatim>\<open>collect_neighbors\<close>\<close>

text \<open>
  Modelled from the spec: \<^verbatim>\<open>S1_NRB.ancillary.buffer_time\<close> is not among the sources. The
  specification (section 6) gives it as
  \<^verbatim>\<open>buffer(start, stop, seconds) -> (start - seconds, stop + seconds)\<close>; a second is
  1000000 microseconds.
\<close>

definition buffer_time :: "datetime \<Rightarrow> datetime \<Rightarrow> int \<Rightarrow> datetime \<times> datetime" where
  "buffer_time start stop seconds = (start - seconds * 1000000, stop + seconds * 1000000)"

text \<open>
  The arguments of the selection around a scene, the same in \<^verbatim>\<open>collect_neighbors\<close> and in
  the completeness check: the buffered window, loose dates, and the sensor, product and
  mode of the scene.
\<close>

definition neighbor_args :: "ID \<Rightarrow> select_args" where
  "neighbor_args scene =
     (case buffer_time (id_start scene) (id_stop scene) 2 of
        (start, stop) \<Rightarrow>
          no_args\<lparr>q_mindate := Some start, q_maxdate := Some stop, q_date_strict := Some False,
            q_sensor := Some (Single (id_sensor scene)),
            q_product := Some (Single (id_product scene)),
            q_acquisition_mode := Some (Single (id_acquisition_mode scene))\<rparr>)"

text \<open>
  \<^verbatim>\<open>del neighbors[neighbors.index(scene.scene)]\<close>: \<^verbatim>\<open>index\<close> raises \<^verbatim>\<open>ValueError\<close> when
  the location is not in the list (in a list of tuples or records it never is).
\<close>

definition collect_neighbors :: "archive \<Rightarrow> ID \<Rightarrow> error + string list" where
  "collect_neighbors arch scene =
     (case archive_select arch (neighbor_args scene) of
        Inl e \<Rightarrow> Inl e
      | Inr (Locs neighbors) \<Rightarrow>
          (case py_index neighbors (id_scene scene) of
             Inl e \<Rightarrow> Inl e
           | Inr i \<Rightarrow> Inr (take i neighbors @ drop (Suc i) neighbors))
      | Inr other \<Rightarrow> Inl ValueError)"

subsection \<open>Completeness of a data take: \<^verbatim>\<open>check_acquisition_completeness\<close>\<close>

text \<open>
  The collaborators from other packages: \<^verbatim>\<open>pyroSAR.identify_many\<close>, which turns a
  selection into scene records, and the regular expression \<^verbatim>\<open>scene.pattern\<close> of pyroSAR,
  as the function from a folder name to the groups \<^verbatim>\<open>start\<close> and \<^verbatim>\<open>stop\<close> of its match
  (\<open>None\<close> when \<^verbatim>\<open>re.search\<close> finds none); and, for the scene selection further down, the
  tile geometries of the KML file, \<^verbatim>\<open>tile_from_aoi\<close> and the reader \<^verbatim>\<open>Vector(filename)\<close>.
\<close>

record collaborators =
  identify_many :: "sel_result \<Rightarrow> error + ID list"
  scene_pattern :: "string \<Rightarrow> (datetime \<times> datetime) option"
  tile_geometry :: "string \<Rightarrow> error + vector"
  tile_from_aoi :: "vector list \<Rightarrow> error + vector list"
  vector_file :: "string \<Rightarrow> error + vector"

text \<open>
  The reference query, written twice in the source (lines 588 and 624):
  \<^verbatim>\<open>asf_select(sensor, product, acquisition_mode, mindate=start, maxdate=stop,
  return_value='sceneName')\<close> with the buffered window; \<^verbatim>\<open>date_strict\<close> has its default.
\<close>

definition reference_group :: "asf_env \<Rightarrow> ID \<Rightarrow> error + string list" where
  "reference_group asf scene =
     (case buffer_time (id_start scene) (id_stop scene) 2 of
        (start, stop) \<Rightarrow>
          (case asf_select asf (Some (Single (id_sensor scene))) (Some (Single (id_product scene)))
                  (Some (Single (id_acquisition_mode scene))) (Some start) (Some stop) None
                  (RetKey ''sceneName'') True of
             Inl e \<Rightarrow> Inl e
           | Inr (Locs ref) \<Rightarrow> Inr ref
           | Inr other \<Rightarrow> Inl (TypeError ''not a list of names'')))"

text \<open>
  \<^verbatim>\<open>match = [re.search(scene.pattern, x + '.SAFE').groupdict() for x in ref]\<close>, then
  \<^verbatim>\<open>min\<close> of the starts and \<^verbatim>\<open>max\<close> of the stops.
\<close>

definition ref_bounds ::
  "(string \<Rightarrow> (datetime \<times> datetime) option) \<Rightarrow> string list \<Rightarrow> error + (datetime \<times> datetime)" where
  "ref_bounds pattern ref =
     (case map_err (\<lambda>x. case pattern (x @ ''.SAFE'') of
                            None \<Rightarrow> Inl AttributeError
                          | Some m \<Rightarrow> Inr m) ref of
        Inl e \<Rightarrow> Inl e
      | Inr match \<Rightarrow>
          (case py_min (map fst match) of
             Inl e \<Rightarrow> Inl e
           | Inr ref_start_min \<Rightarrow>
               (case py_max (map snd match) of
                  Inl e \<Rightarrow> Inl e
                | Inr ref_stop_max \<Rightarrow> Inr (ref_start_min, ref_stop_max))))"

text \<open>The variables of the loop body after its first part (lines 578 to 609).\<close>

record expectation =
  groupsize :: int
  has_predecessor :: bool
  has_successor :: bool
  ref :: "string list option"

definition no_predecessor :: "expectation \<Rightarrow> expectation" where
  "no_predecessor ex = ex\<lparr>groupsize := groupsize ex - 1, has_predecessor := False\<rparr>"

definition no_successor :: "expectation \<Rightarrow> expectation" where
  "no_successor ex = ex\<lparr>groupsize := groupsize ex - 1, has_successor := False\<rparr>"

definition expected_group ::
  "asf_env \<Rightarrow> collaborators \<Rightarrow> ID \<Rightarrow> error + expectation" where
  "expected_group asf col scene =
     (let slice = id_sliceNumber scene;
          n_slices = id_totalSlices scene;
          ex = \<lparr>groupsize = 3, has_predecessor = True, has_successor = True, ref = None\<rparr>
      in if slice = 0 \<or> n_slices = 0 then
           (case reference_group asf scene of
              Inl e \<Rightarrow> Inl e
            | Inr names \<Rightarrow>
                (case ref_bounds (scene_pattern col) names of
                   Inl e \<Rightarrow> Inl e
                 | Inr (ref_start_min, ref_stop_max) \<Rightarrow>
                     (let ex0 = ex\<lparr>ref := Some names\<rparr>;
                          ex1 = (if ref_start_min = id_start scene then no_predecessor ex0 else ex0);
                          ex2 = (if ref_stop_max = id_stop scene then no_successor ex1 else ex1)
                      in Inr ex2)))
         else
           (let ex1 = (if slice = 1 then no_predecessor ex else ex);
                ex2 = (if slice = n_slices then no_successor ex1 else ex1)
            in Inr ex2))"

text \<open>
  The second part of the loop body (lines 610 to 639): the selection around the scene in
  the archive, and, when it is smaller than expected, the comparison with the reference
  group. The result is the list \<^verbatim>\<open>missing\<close> and the number of reference queries this part
  made.
\<close>

definition missing_neighbors ::
  "asf_env \<Rightarrow> archive \<Rightarrow> collaborators \<Rightarrow> ID \<Rightarrow> expectation \<Rightarrow> error + (string list \<times> nat)" where
  "missing_neighbors asf arch col scene ex =
     (case buffer_time (id_start scene) (id_stop scene) 2 of
        (start, stop) \<Rightarrow>
          (case archive_select arch (neighbor_args scene) of
             Inl e \<Rightarrow> Inl e
           | Inr found \<Rightarrow>
               (case identify_many col found of
                  Inl e \<Rightarrow> Inl e
                | Inr grp \<Rightarrow>
                    if int (length grp) < groupsize ex then
                      (case (case ref ex of
                               None \<Rightarrow> reference_group asf scene
                             | Some names \<Rightarrow> Inr names) of
                         Inl e \<Rightarrow> Inl e
                       | Inr names \<Rightarrow>
                           (case ref_bounds (scene_pattern col) names of
                              Inl e \<Rightarrow> Inl e
                            | Inr (ref_start_min, ref_stop_max) \<Rightarrow>
                                (case py_min (map id_start grp) of
                                   Inl e \<Rightarrow> Inl e
                                 | Inr start_min \<Rightarrow>
                                     (case py_max (map id_stop grp) of
                                        Inl e \<Rightarrow> Inl e
                                      | Inr stop_max \<Rightarrow>
                                          Inr ((if ref_start_min < start \<and> start < start_min \<and>
                                                   has_predecessor ex
                                                then [''predecessor''] else []) @
                                               (if stop_max < stop \<and> stop < ref_stop_max \<and>
                                                   has_successor ex
                                                then [''successor''] else []),
                                               if ref ex = None then 1 else 0)))))
                    else Inr ([], 0))))"

text \<open>\<^verbatim>\<open>sep.join(xs)\<close>.\<close>

fun join :: "string \<Rightarrow> string list \<Rightarrow> string" where
  "join sep [] = []"
| "join sep [x] = x"
| "join sep (x # y # ys) = x @ sep @ join sep (y # ys)"

text \<open>
  One pass of the loop: the message the scene adds to \<^verbatim>\<open>messages\<close>, if any, and the
  number of reference queries the pass made.
\<close>

definition check_scene ::
  "asf_env \<Rightarrow> archive \<Rightarrow> collaborators \<Rightarrow> ID \<Rightarrow> error + (string option \<times> nat)" where
  "check_scene asf arch col scene =
     (case expected_group asf col scene of
        Inl e \<Rightarrow> Inl e
      | Inr ex \<Rightarrow>
          (case missing_neighbors asf arch col scene ex of
             Inl e \<Rightarrow> Inl e
           | Inr (missing, queried) \<Rightarrow>
               Inr (if length missing > 0
                    then Some (join '' and '' missing @ '' acquisition for scene '' @
                               basename (id_scene scene))
                    else None,
                    (if ref ex = None then 0 else 1) + queried)))"




subsection \<open>Tile-driven scene selection: \<^verbatim>\<open>scene_select\<close>\<close>

text \<open>
  Lines 470 to 479: the copy of the keyword arguments, with the mode \<^verbatim>\<open>'SM'\<close> replaced by
  its six beams and, for an \<^verbatim>\<open>ASFArchive\<close>, scene records asked for.
\<close>

definition prepare_args :: "archive \<Rightarrow> select_args \<Rightarrow> select_args" where
  "prepare_args arch kwargs =
     (let args = (if q_acquisition_mode kwargs = Some (Single ''SM'')
                  then kwargs\<lparr>q_acquisition_mode :=
                         Some (Multiple [''S1'', ''S2'', ''S3'', ''S4'', ''S5'', ''S6''])\<rparr>
                  else kwargs)
      in if is_ASFArchive arch then args\<lparr>q_return_value := Some RetASF\<rparr> else args)"

text \<open>
  Modelled from the spec: \<^verbatim>\<open>S1_NRB.tile_extraction.aoi_from_tile\<close> and \<^verbatim>\<open>tile_from_aoi\<close>
  are not among the sources. The specification (section 6) gives them as
  \<^verbatim>\<open>aoi_from_tile(tile-ids) -> geometry(ies)\<close> and
  \<^verbatim>\<open>tile_from_aoi(geometry/geometries) -> tile-ids [+geometries]\<close>. \<open>aoi_from_tile\<close> looks up
  the geometry of each tile given, one for a single name and a list for a list (the
  single one is wrapped into a list by \<^verbatim>\<open>scene_select\<close>); \<open>tile_from_aoi\<close> is the
  collaborator of that name, and the tile names it returns are those of its geometries.
\<close>

definition aoi_from_tile :: "collaborators \<Rightarrow> string arg \<Rightarrow> error + vector list" where
  "aoi_from_tile col tiles = map_err (tile_geometry col) (arg_values tiles)"

text \<open>
  The loop \<^verbatim>\<open>for item in vec: selection.extend(archive.select(vectorobject=item, **args))\<close>.
  Beside its outcome it returns the arguments of the \<^verbatim>\<open>select\<close> calls it made, in order.
  A \<^verbatim>\<open>vectorobject\<close> among the keyword arguments makes the call itself raise
  \<^verbatim>\<open>TypeError\<close> (two values for one parameter). The selections are lists of locations:
  the STAC and pyroSAR archives return nothing else, and the ASF archive is asked for the
  \<^verbatim>\<open>url\<close>; the last case is never taken.
\<close>

fun select_per_tile ::
  "archive \<Rightarrow> select_args \<Rightarrow> vector list \<Rightarrow> string list \<Rightarrow>
   (error + string list) \<times> select_args list" where
  "select_per_tile arch args [] selection = (Inr selection, [])"
| "select_per_tile arch args (item # vec) selection =
     (if q_vectorobject args \<noteq> None
      then (Inl (TypeError ''multiple values for keyword argument vectorobject''), [])
      else
        (let call = args\<lparr>q_vectorobject := Some (Vector item)\<rparr>
         in case archive_select arch call of
              Inl e \<Rightarrow> (Inl e, [call])
            | Inr (Locs found) \<Rightarrow>
                (case select_per_tile arch args vec (selection @ found) of
                   (outcome, calls) \<Rightarrow> (outcome, call # calls))
            | Inr other \<Rightarrow> (Inl (TypeError ''not a list of locations''), [call])))"

text \<open>
  Lines 492 to 511, the first search when neither tiles nor a geometry are given: the
  selection without a geometry, its scene records (\<^verbatim>\<open>selection_tmp[0]\<close> raises
  \<^verbatim>\<open>IndexError\<close> on an empty selection), the tiles over the footprints, and the window from
  the earliest start to the latest stop, widened by a minute (60000000 microseconds) on
  both sides. It returns the tile geometries, the tile names and the new arguments.
\<close>

definition first_search ::
  "archive \<Rightarrow> collaborators \<Rightarrow> select_args \<Rightarrow>
   (error + (vector list \<times> string arg \<times> select_args)) \<times> select_args list" where
  "first_search arch col args =
     (if q_vectorobject args \<noteq> None
      then (Inl (TypeError ''multiple values for keyword argument vectorobject''), [])
      else
        (case archive_select arch args of
           Inl e \<Rightarrow> Inl e
         | Inr selection_tmp \<Rightarrow>
             (case (case selection_tmp of
                      Locs [] \<Rightarrow> Inl IndexError
                    | Tuples [] \<Rightarrow> Inl IndexError
                    | Recs [] \<Rightarrow> Inl IndexError
                    | Recs recs \<Rightarrow> Inr recs
                    | other \<Rightarrow> identify_many col other) of
                Inl e \<Rightarrow> Inl e
              | Inr scenes \<Rightarrow>
                  (case tile_from_aoi col (map id_geometry scenes) of
                     Inl e \<Rightarrow> Inl e
                   | Inr vec \<Rightarrow>
                       (case py_min (map id_start scenes) of
                          Inl e \<Rightarrow> Inl e
                        | Inr earliest \<Rightarrow>
                            (case py_max (map id_stop scenes) of
                               Inl e \<Rightarrow> Inl e
                             | Inr latest \<Rightarrow>
                                 Inr (vec, Multiple (map mgrs vec),
                                      args\<lparr>q_mindate := Some (earliest - 60000000),
                                           q_maxdate := Some (latest + 60000000)\<rparr>))))),
         [args]))"

text \<open>
  \<^verbatim>\<open>scene_select(archive, kml_file, aoi_tiles, aoi_geometry, **kwargs)\<close>: the scenes and the
  tiles, and the arguments of all \<^verbatim>\<open>select\<close> calls made. \<^verbatim>\<open>sorted(list(set(selection)))\<close>
  is the sorted list of the distinct members.
\<close>

definition scene_select ::
  "archive \<Rightarrow> collaborators \<Rightarrow> string arg option \<Rightarrow> string option \<Rightarrow> select_args \<Rightarrow>
   (error + (string list \<times> string arg)) \<times> select_args list" where
  "scene_select arch col aoi_tiles aoi_geometry kwargs =
     (let args = prepare_args arch kwargs
      in case (case aoi_tiles of
                 Some tiles \<Rightarrow>
                   (case aoi_from_tile col tiles of
                      Inl e \<Rightarrow> (Inl e, [])
                    | Inr vec \<Rightarrow> (Inr (vec, tiles, args), []))
               | None \<Rightarrow>
                   (case aoi_geometry of
                      Some file \<Rightarrow>
                        (case vector_file col file of
                           Inl e \<Rightarrow> (Inl e, [])
                         | Inr geom \<Rightarrow>
                             (case tile_from_aoi col [geom] of
                                Inl e \<Rightarrow> (Inl e, [])
                              | Inr tiles \<Rightarrow> (Inr ([geom], Multiple (map mgrs tiles), args), [])))
                    | None \<Rightarrow> first_search arch col args)) of
           (Inl e, calls) \<Rightarrow> (Inl e, calls)
         | (Inr (vec, tiles, args1), calls) \<Rightarrow>
             (let args2 = (if is_ASFArchive arch
                           then args1\<lparr>q_return_value := Some (RetKey ''url'')\<rparr> else args1)
              in case select_per_tile arch args2 vec [] of
                   (Inl e, calls2) \<Rightarrow> (Inl e, calls @ calls2)
                 | (Inr selection, calls2) \<Rightarrow>
                     (Inr (sort (remdups selection), tiles), calls @ calls2)))"

text \<open>
  The arguments of the second search, from lines 505 to 514: the prepared arguments with
  the window of the scene records of the first search, a minute wider on both sides, and
  the \<^verbatim>\<open>url\<close> asked of an \<^verbatim>\<open>ASFArchive\<close>. The theorem on the two searches compares the
  calls of \<^verbatim>\<open>scene_select\<close> with them.
\<close>

definition window_args :: "archive \<Rightarrow> select_args \<Rightarrow> ID list \<Rightarrow> select_args" where
  "window_args arch kwargs recs =
     (let args = (prepare_args arch kwargs)
                   \<lparr>q_mindate := Some (Min (id_start ` set recs) - 60000000),
                    q_maxdate := Some (Max (id_stop ` set recs) + 60000000)\<rparr>
      in if is_ASFArchive arch then args\<lparr>q_return_value := Some (RetKey ''url'')\<rparr> else args)"

subsection \<open>Concrete inputs used by the instances below\<close>

text \<open>
  \<open>flaky n\<close> raises an API error on the attempts before the \<open>n\<close>-th and then succeeds;
  \<open>down\<close> raises an API error on every attempt, with a message of its own on the 300th;
  \<open>broken\<close> raises an API error once and then a \<^verbatim>\<open>TypeError\<close>.
\<close>

definition flaky :: "nat \<Rightarrow> nat \<Rightarrow> error + string" where
  "flaky n k = (if k < n then Inl (APIError ''busy'') else Inr ''catalog'')"

definition down :: "nat \<Rightarrow> error + string" where
  "down k = Inl (APIError (if k = 300 then ''last'' else ''busy''))"

definition broken :: "nat \<Rightarrow> error + string" where
  "broken k = (if k < 2 then Inl (APIError ''busy'') else Inl (TypeError ''bad''))"

text \<open>
  Scene folders: \<open>sA\<close> and \<open>sA2\<close> are two processings of one acquisition, \<open>sB\<close> is another
  acquisition; \<open>pA\<close> and \<open>pC\<close> are two processings of one acquisition in different folders,
  with the folder of \<open>qB\<close> between them. In the file system \<open>fs0\<close> only the manifests of
  \<open>sA\<close> and \<open>sA2\<close> exist; \<open>sA2\<close> declares the later processing start.
\<close>

definition sA :: string where
  "sA = ''/data/S1A_IW_GRDH_1SDV_20200101T000000_20200101T000025_030000_037000_AAAA.SAFE''"

definition sA2 :: string where
  "sA2 = ''/data/S1A_IW_GRDH_1SDV_20200101T000000_20200101T000025_030000_037000_BBBB.SAFE''"

definition sB :: string where
  "sB = ''/data/S1B_IW_GRDH_1SDV_20200101T000000_20200101T000025_030000_037000_CCCC.SAFE''"

definition pA :: string where
  "pA = ''/a/S1A_IW_GRDH_1SDV_20200101T000000_20200101T000025_030000_037000_AAAA.SAFE''"

definition pC :: string where
  "pC = ''/c/S1A_IW_GRDH_1SDV_20200101T000000_20200101T000025_030000_037000_BBBB.SAFE''"

definition qB :: string where
  "qB = ''/b/S1B_IW_GRDH_1SDV_20200101T000000_20200101T000025_030000_037000_CCCC.SAFE''"

definition fs0 :: "string \<Rightarrow> error + datetime" where
  "fs0 p = (if p = path_join sA ''manifest.safe'' then Inr 100
            else if p = path_join sA2 ''manifest.safe'' then Inr 200
            else Inl (OtherError ''FileNotFoundError''))"




text \<open>
  A scene record for the folder \<open>sA\<close>; an archive whose selection is always \<open>[sA, sB]\<close>; an
  ASF service that answers every search with the same feature twice, and the record of
  the scene whose location is the \<^verbatim>\<open>url\<close> of that feature.
\<close>

definition tile0 :: vector where
  "tile0 = \<lparr>mgrs = ''32TPS'', extent = (0, 0, 10, 10)\<rparr>"

definition scA :: ID where
  "scA = \<lparr>id_scene = sA, id_sensor = ''S1A'', id_product = ''GRD'', id_acquisition_mode = ''IW'',
     id_start = 100000000, id_stop = 125000000, id_sliceNumber = 2, id_totalSlices = 5,
     id_geometry = tile0\<rparr>"

definition archP :: archive where
  "archP = Archive (\<lambda>a. Inr [sA, sB])"

definition featU :: feature where
  "featU = \<lparr>f_properties = [(''url'', ''https://asf.example/S1A.zip''), (''sceneName'', ''S1A'')],
     f_startTime = 100000000, f_stopTime = 125000000\<rparr>"

definition asf_dup :: asf_env where
  "asf_dup = \<lparr>asf_search = (\<lambda>q. Inr [featU, featU]),
     asf_record = (\<lambda>x. Inl (OtherError ''not used''))\<rparr>"

definition scU :: ID where
  "scU = scA\<lparr>id_scene := ''https://asf.example/S1A.zip''\<rparr>"

text \<open>
  Two queries over the same window: one with loose dates for the sensor S1A, one with
  the default strict dates for two product types.
\<close>

definition loose_query :: select_args where
  "loose_query = no_args\<lparr>q_sensor := Some (Single ''S1A''), q_mindate := Some 100000000,
     q_maxdate := Some 125000000, q_date_strict := Some False\<rparr>"

definition strict_query :: select_args where
  "strict_query = no_args\<lparr>q_product := Some (Multiple [''GRD'', ''SLC'']),
     q_mindate := Some 100000000, q_maxdate := Some 125000000\<rparr>"

text \<open>
  Features of the ASF service: the scene \<open>A\<close> of the record \<open>scA\<close>, its predecessor \<open>P\<close> in the
  data take, and a scene \<open>X\<close> that starts and stops one second before \<open>A\<close>. The service
  \<open>asf1\<close> knows \<open>P\<close> and \<open>A\<close>, the service \<open>asf2\<close> knows \<open>X\<close> and \<open>A\<close>. The collaborators
  \<open>col0\<close> identify the folder \<open>sA\<close> as \<open>scA\<close> and read the times of the three names.
\<close>

definition featA :: feature where
  "featA = \<lparr>f_properties = [(''sceneName'', ''SCENE_A''), (''url'', ''https://asf.example/SCENE_A.zip'')],
     f_startTime = 100000000, f_stopTime = 125000000\<rparr>"

definition featP :: feature where
  "featP = \<lparr>f_properties = [(''sceneName'', ''SCENE_P''), (''url'', ''https://asf.example/SCENE_P.zip'')],
     f_startTime = 75000000, f_stopTime = 100000000\<rparr>"

definition featX :: feature where
  "featX = \<lparr>f_properties = [(''sceneName'', ''SCENE_X''), (''url'', ''https://asf.example/SCENE_X.zip'')],
     f_startTime = 99000000, f_stopTime = 124000000\<rparr>"

definition asf1 :: asf_env where
  "asf1 = \<lparr>asf_search = (\<lambda>q. Inr [featP, featA]),
     asf_record = (\<lambda>x. Inl (OtherError ''not used''))\<rparr>"

definition asf2 :: asf_env where
  "asf2 = \<lparr>asf_search = (\<lambda>q. Inr [featX, featA]),
     asf_record = (\<lambda>x. Inl (OtherError ''not used''))\<rparr>"

definition col0 :: collaborators where
  "col0 = \<lparr>identify_many = (\<lambda>r. if r = Locs [sA] then Inr [scA] else Inl (OtherError ''unknown scene'')),
     scene_pattern = (\<lambda>n. if n = ''SCENE_A.SAFE'' then Some (100000000, 125000000)
                          else if n = ''SCENE_P.SAFE'' then Some (75000000, 100000000)
                          else if n = ''SCENE_X.SAFE'' then Some (99000000, 124000000)
                          else None),
     tile_geometry = (\<lambda>t. if t = ''32TPS'' then Inr tile0 else Inl KeyError),
     tile_from_aoi = (\<lambda>vs. Inr [tile0]),
     vector_file = (\<lambda>f. Inl (OtherError ''no such file''))\<rparr>"

definition scZ :: ID where
  "scZ = scA\<lparr>id_sliceNumber := 0, id_totalSlices := 5\<rparr>"

text \<open>
  An archive that holds the scene \<open>sA\<close> alone, and the variables of a loop pass that has
  fetched the reference group of \<open>A\<close> and its predecessor \<open>P\<close> and expects both neighbours.
\<close>

definition archS :: archive where
  "archS = Archive (\<lambda>a. Inr [sA])"

definition exW :: expectation where
  "exW = \<lparr>groupsize = 3, has_predecessor = True, has_successor = True,
     ref = Some [''SCENE_A'', ''SCENE_P'']\<rparr>"





text \<open>
  A second tile, collaborators that know both tiles and find both over any footprint,
  and an archive whose selection depends on the geometry of the query.
\<close>

definition tile1 :: vector where
  "tile1 = \<lparr>mgrs = ''32TPT'', extent = (0, 10, 10, 20)\<rparr>"

definition col2 :: collaborators where
  "col2 = col0\<lparr>tile_geometry := (\<lambda>t. if t = ''32TPS'' then Inr tile0
                                      else if t = ''32TPT'' then Inr tile1 else Inl KeyError),
               tile_from_aoi := (\<lambda>vs. Inr [tile0, tile1])\<rparr>"

definition archT :: archive where
  "archT = Archive (\<lambda>a. if q_vectorobject a = Some (Vector tile0) then Inr [sB, sA]
                        else if q_vectorobject a = Some (Vector tile1) then Inr [sA2, sB]
                        else Inr [sA])"

section \<open>Verified properties\<close>

subsection \<open>Bounded retry\<close>

lemma open_catalog_loop_skip:
  "i \<le> n \<Longrightarrow> n \<le> mt \<Longrightarrow> (\<forall>k. i \<le> k \<and> k < n \<longrightarrow> transient (b k)) \<Longrightarrow>
   open_catalog_loop b mt i s = open_catalog_loop b mt n (s + (n - i))"
proof (induction "n - i" arbitrary: i s)
  case 0
  then show ?case by simp
next
  case (Suc d)
  then have lt: "i < n" and tr: "transient (b i)" by auto
  from tr obtain e where e: "b i = Inl e" "is_APIError e"
    by (auto simp: transient_def split: sum.splits)
  have step: "open_catalog_loop b mt i s = open_catalog_loop b mt (i + 1) (s + 1)"
    using e lt Suc.prems(2) by (subst open_catalog_loop.simps) simp
  have "open_catalog_loop b mt (i + 1) (s + 1) = open_catalog_loop b mt n (s + 1 + (n - (i + 1)))"
    using Suc.hyps(2) Suc.prems lt by (intro Suc.hyps(1)) auto
  moreover have "s + 1 + (n - (i + 1)) = s + (n - i)" using lt by arith
  ultimately show ?case using step by (simp only:)
qed

lemma open_catalog_loop_final:
  "(case b n of Inr v \<Rightarrow> True | Inl e \<Rightarrow> \<not> is_APIError e \<or> mt \<le> n) \<Longrightarrow>
   open_catalog_loop b mt n s = (b n, n, s)"
  by (subst open_catalog_loop.simps) (auto split: sum.splits)

lemma search_loop_skip:
  "i \<le> n \<Longrightarrow> n \<le> mt \<Longrightarrow> (\<forall>k. i \<le> k \<and> k < n \<longrightarrow> transient (b k)) \<Longrightarrow>
   search_loop b mt i s = search_loop b mt n (s + (n - i))"
proof (induction "n - i" arbitrary: i s)
  case 0
  then show ?case by simp
next
  case (Suc d)
  then have lt: "i < n" and tr: "transient (b i)" by auto
  from tr obtain e where e: "b i = Inl e" "is_APIError e"
    by (auto simp: transient_def split: sum.splits)
  have step: "search_loop b mt i s = search_loop b mt (i + 1) (s + 1)"
    using e lt Suc.prems(2) by (subst search_loop.simps) simp
  have "search_loop b mt (i + 1) (s + 1) = search_loop b mt n (s + 1 + (n - (i + 1)))"
    using Suc.hyps(2) Suc.prems lt by (intro Suc.hyps(1)) auto
  moreover have "s + 1 + (n - (i + 1)) = s + (n - i)" using lt by arith
  ultimately show ?case using step by (simp only:)
qed

lemma search_loop_final:
  "(case b n of Inr v \<Rightarrow> True | Inl e \<Rightarrow> \<not> is_APIError e \<or> mt \<le> n) \<Longrightarrow>
   search_loop b mt n s = (b n, n, s)"
  by (subst search_loop.simps) (auto split: sum.splits)

lemma open_catalog_outcome:
  assumes "1 \<le> n" "n \<le> max_tries" "\<forall>k. 1 \<le> k \<and> k < n \<longrightarrow> transient (b k)"
    and "case b n of Inr v \<Rightarrow> True | Inl e \<Rightarrow> \<not> is_APIError e \<or> n = max_tries"
  shows "open_catalog b = (b n, n, n - 1)"
proof -
  have "open_catalog b = open_catalog_loop b max_tries n (0 + (n - 1))"
    unfolding open_catalog_def using assms(1-3) by (rule open_catalog_loop_skip)
  also have "\<dots> = (b n, n, 0 + (n - 1))"
    using assms(4) by (intro open_catalog_loop_final) (auto split: sum.splits)
  finally show ?thesis by simp
qed

lemma catalog_search_outcome:
  assumes "1 \<le> n" "n \<le> max_tries" "\<forall>k. 1 \<le> k \<and> k < n \<longrightarrow> transient (b k)"
    and "case b n of Inr v \<Rightarrow> True | Inl e \<Rightarrow> \<not> is_APIError e \<or> n = max_tries"
  shows "catalog_search_retry b = (b n, n, n - 1)"
proof -
  have "catalog_search_retry b = search_loop b max_tries n (0 + (n - 1))"
    unfolding catalog_search_retry_def using assms(1-3) by (rule search_loop_skip)
  also have "\<dots> = (b n, n, 0 + (n - 1))"
    using assms(4) by (intro search_loop_final) (auto split: sum.splits)
  finally show ?thesis by simp
qed

text \<open>
  Claim C2. Catalog open and catalog search retry a transient API error with one second
  of sleep between attempts, 300 attempts at most. If the attempts before the \<open>n\<close>-th
  (\<open>n \<le> 300\<close>) fail transiently and the \<open>n\<close>-th succeeds, the call succeeds after \<open>n\<close>
  attempts and \<open>n - 1\<close> seconds of sleep. If every attempt fails transiently, the call
  fails after exactly 300 attempts and 299 seconds with the error of the 300th attempt.
  An error that is not an API error at the \<open>n\<close>-th attempt is the outcome of the call at
  once: \<open>n\<close> attempts, no further one.
\<close>

theorem retry_policy:
  fixes co :: "nat \<Rightarrow> error + 'c" and cs :: "nat \<Rightarrow> error + 'r"
  shows
    "(1 \<le> n \<and> n \<le> 300 \<and> (\<forall>k. 1 \<le> k \<and> k < n \<longrightarrow> transient (co k)) \<and> co n = Inr c
        \<longrightarrow> open_catalog co = (Inr c, n, n - 1)) \<and>
     ((\<forall>k. 1 \<le> k \<and> k \<le> 300 \<longrightarrow> transient (co k))
        \<longrightarrow> open_catalog co = (co 300, 300, 299)) \<and>
     (1 \<le> n \<and> n \<le> 300 \<and> (\<forall>k. 1 \<le> k \<and> k < n \<longrightarrow> transient (co k)) \<and>
        co n = Inl e \<and> \<not> is_APIError e
        \<longrightarrow> open_catalog co = (Inl e, n, n - 1)) \<and>
     (1 \<le> n \<and> n \<le> 300 \<and> (\<forall>k. 1 \<le> k \<and> k < n \<longrightarrow> transient (cs k)) \<and> cs n = Inr r
        \<longrightarrow> catalog_search_retry cs = (Inr r, n, n - 1)) \<and>
     ((\<forall>k. 1 \<le> k \<and> k \<le> 300 \<longrightarrow> transient (cs k))
        \<longrightarrow> catalog_search_retry cs = (cs 300, 300, 299)) \<and>
     (1 \<le> n \<and> n \<le> 300 \<and> (\<forall>k. 1 \<le> k \<and> k < n \<longrightarrow> transient (cs k)) \<and>
        cs n = Inl e \<and> \<not> is_APIError e
        \<longrightarrow> catalog_search_retry cs = (Inl e, n, n - 1))"
proof -
  have a: "open_catalog co = (Inr c, n, n - 1)"
    if "1 \<le> n" "n \<le> 300" "\<forall>k. 1 \<le> k \<and> k < n \<longrightarrow> transient (co k)" "co n = Inr c"
    using open_catalog_outcome [of n co] that by (simp add: max_tries_def)
  have b: "open_catalog co = (co 300, 300, 299)"
    if "\<forall>k. 1 \<le> k \<and> k \<le> 300 \<longrightarrow> transient (co k)"
    using open_catalog_outcome [of 300 co] that
    by (auto simp: max_tries_def split: sum.splits)
  have c: "open_catalog co = (Inl e, n, n - 1)"
    if "1 \<le> n" "n \<le> 300" "\<forall>k. 1 \<le> k \<and> k < n \<longrightarrow> transient (co k)"
      "co n = Inl e" "\<not> is_APIError e"
    using open_catalog_outcome [of n co] that by (simp add: max_tries_def)
  have a': "catalog_search_retry cs = (Inr r, n, n - 1)"
    if "1 \<le> n" "n \<le> 300" "\<forall>k. 1 \<le> k \<and> k < n \<longrightarrow> transient (cs k)" "cs n = Inr r"
    using catalog_search_outcome [of n cs] that by (simp add: max_tries_def)
  have b': "catalog_search_retry cs = (cs 300, 300, 299)"
    if "\<forall>k. 1 \<le> k \<and> k \<le> 300 \<longrightarrow> transient (cs k)"
    using catalog_search_outcome [of 300 cs] that
    by (auto simp: max_tries_def split: sum.splits)
  have c': "catalog_search_retry cs = (Inl e, n, n - 1)"
    if "1 \<le> n" "n \<le> 300" "\<forall>k. 1 \<le> k \<and> k < n \<longrightarrow> transient (cs k)"
      "cs n = Inl e" "\<not> is_APIError e"
    using catalog_search_outcome [of n cs] that by (simp add: max_tries_def)
  from a b c a' b' c' show ?thesis by blast
qed

theorem retry_policy_witness:
  "open_catalog (flaky 3) = (Inr ''catalog'', 3, 2) \<and>
   open_catalog down = (Inl (APIError ''last''), 300, 299) \<and>
   open_catalog broken = (Inl (TypeError ''bad''), 2, 1) \<and>
   catalog_search_retry (flaky 300) = (Inr ''catalog'', 300, 299) \<and>
   catalog_search_retry down = (Inl (APIError ''last''), 300, 299) \<and>
   catalog_search_retry broken = (Inl (TypeError ''bad''), 2, 1)"
proof -
  have f: "\<forall>k. 1 \<le> k \<and> k < n \<longrightarrow> transient (flaky n k)" for n
    by (simp add: flaky_def transient_def)
  have d: "\<forall>k. 1 \<le> k \<and> k \<le> 300 \<longrightarrow> transient (down k)"
    by (simp add: down_def transient_def)
  have b: "\<forall>k. 1 \<le> k \<and> k < 2 \<longrightarrow> transient (broken k)"
    by (simp add: broken_def transient_def)
  have fv: "flaky n n = Inr ''catalog''" for n
    by (simp add: flaky_def)
  have bv: "broken 2 = Inl (TypeError ''bad'')" "\<not> is_APIError (TypeError ''bad'')"
    by (simp_all add: broken_def)
  have dv: "down 300 = Inl (APIError ''last'')"
    by (simp add: down_def)
  note t1 = retry_policy [of 3 "flaky 3" "''catalog''" "TypeError ''bad''" "flaky 3" "''catalog''"]
  note t2 = retry_policy [of 2 broken "''catalog''" "TypeError ''bad''" broken "''catalog''"]
  note t3 = retry_policy [of 300 down "''catalog''" "TypeError ''bad''" "flaky 300" "''catalog''"]
  note t4 = retry_policy [of 300 down "''catalog''" "TypeError ''bad''" down "''catalog''"]
  have 1: "open_catalog (flaky 3) = (Inr ''catalog'', 3, 2)"
    using t1 f [of 3] fv [of 3] by simp
  have 2: "open_catalog down = (Inl (APIError ''last''), 300, 299)"
    using t3 d dv by simp
  have 3: "open_catalog broken = (Inl (TypeError ''bad''), 2, 1)"
    using t2 b bv by simp
  have 4: "catalog_search_retry (flaky 300) = (Inr ''catalog'', 300, 299)"
    using t3 f [of 300] fv [of 300] by simp
  have 5: "catalog_search_retry down = (Inl (APIError ''last''), 300, 299)"
    using t4 d dv by simp
  have 6: "catalog_search_retry broken = (Inl (TypeError ''bad''), 2, 1)"
    using t2 b bv by simp
  from 1 2 3 4 5 6 show ?thesis by blast
qed

subsection \<open>Duplicate resolution\<close>

lemma collect_group_eq:
  "\<forall>x\<in>set xs. scene_key x \<noteq> None \<Longrightarrow>
   collect_group m xs =
     Inr (takeWhile (\<lambda>y. scene_key y = Some m) xs, dropWhile (\<lambda>y. scene_key y = Some m) xs)"
  by (induction xs) (auto split: option.splits)

lemma py_max_Max: "xs \<noteq> [] \<Longrightarrow> py_max xs = Inr (Max (set xs))"
proof (cases xs)
  case Nil
  assume "xs \<noteq> []"
  with Nil show ?thesis by simp
next
  case (Cons a list)
  have "Max (set (a # list)) = fold max list a" by (rule Max.set_eq_fold)
  with Cons show ?thesis by simp
qed

lemma py_index_first:
  "v \<in> set xs \<Longrightarrow>
   \<exists>i. py_index xs v = Inr i \<and> i < length xs \<and> xs ! i = v \<and> (\<forall>j<i. xs ! j \<noteq> v)"
proof (induction xs)
  case Nil
  then show ?case by simp
next
  case (Cons x xs)
  show ?case
  proof (cases "x = v")
    case True
    then show ?thesis by simp
  next
    case False
    with Cons.prems have "v \<in> set xs" by simp
    from Cons.IH [OF this] obtain i where
      i: "py_index xs v = Inr i" "i < length xs" "xs ! i = v" "\<forall>j<i. xs ! j \<noteq> v" by blast
    have a: "\<forall>j<Suc i. (x # xs) ! j \<noteq> v"
      using False i(4) by (simp add: nth_Cons split: nat.splits)
    have b: "py_index (x # xs) v = Inr (Suc i)" using False i(1) by simp
    have c: "Suc i < length (x # xs)" "(x # xs) ! Suc i = v" using i(2,3) by simp_all
    from a b c show ?thesis by blast
  qed
qed

lemma proc_times_map:
  "\<forall>x\<in>set grp. get_proc_time fs x = Inr (pt x) \<Longrightarrow> proc_times fs grp = Inr (map pt grp)"
  by (induction grp) auto

lemma takeWhile_neq_nth:
  assumes a: "x \<in> set (takeWhile (\<lambda>y. y \<noteq> xs ! i) xs)" and i: "i < length xs"
  shows "\<exists>j<i. xs ! j = x"
proof -
  let ?P = "\<lambda>y. y \<noteq> xs ! i"
  from a obtain j where j: "j < length (takeWhile ?P xs)" "takeWhile ?P xs ! j = x"
    by (auto simp: in_set_conv_nth)
  have "xs ! j = x" using j by (simp add: takeWhile_nth)
  moreover have "j < i"
  proof (rule ccontr)
    assume "\<not> j < i"
    then have l: "i < length (takeWhile ?P xs)" using j(1) by simp
    then have "takeWhile ?P xs ! i \<in> set (takeWhile ?P xs)" by (rule nth_mem)
    then have "?P (takeWhile ?P xs ! i)" by (rule set_takeWhileD [THEN conjunct2])
    moreover have "takeWhile ?P xs ! i = xs ! i" using l by (simp add: takeWhile_nth)
    ultimately show False by simp
  qed
  ultimately show ?thesis by blast
qed

lemma keep_of_group_latest:
  assumes ne: "grp \<noteq> []" and rd: "1 < length grp \<longrightarrow> (\<forall>x\<in>set grp. readable fs x)"
  shows "\<exists>k. keep_of_group fs grp = Inr k \<and> latest_in fs k grp"
proof (cases "1 < length grp")
  case False
  with ne obtain x where x: "grp = [x]" by (cases grp) auto
  have "keep_of_group fs grp = Inr x" by (simp add: x keep_of_group_def py_nth_def)
  moreover have "latest_in fs x grp" by (simp add: x latest_in_def)
  ultimately show ?thesis by blast
next
  case True
  define pt where "pt x = (case get_proc_time fs x of Inr t \<Rightarrow> t | Inl e \<Rightarrow> 0)" for x
  have pt: "\<forall>x\<in>set grp. get_proc_time fs x = Inr (pt x)"
    using rd True by (auto simp: pt_def readable_def split: sum.splits)
  have nl: "not_later fs x y = (pt x \<le> pt y)" if "x \<in> set grp" "y \<in> set grp" for x y
    using pt that by (simp add: not_later_def)
  let ?ts = "map pt grp"
  let ?M = "Max (set ?ts)"
  have ts: "proc_times fs grp = Inr ?ts" using pt by (rule proc_times_map)
  have mx: "py_max ?ts = Inr ?M" using ne by (simp add: py_max_Max)
  have "?M \<in> set ?ts" using ne by (intro Max_in) auto
  from py_index_first [OF this] obtain i where
    i: "py_index ?ts ?M = Inr i" "i < length ?ts" "?ts ! i = ?M" "\<forall>j<i. ?ts ! j \<noteq> ?M"
    by blast
  let ?k = "grp ! i"
  have il: "i < length grp" using i(2) by simp
  have k: "keep_of_group fs grp = Inr ?k"
    using True ts mx i(1) il by (simp add: keep_of_group_def py_nth_def)
  have kin: "?k \<in> set grp" using il by simp
  have ptk: "pt ?k = ?M" using i(3) il by simp
  have le: "pt x \<le> pt ?k" if "x \<in> set grp" for x
    using that ptk by simp
  have lt: "\<not> pt ?k \<le> pt x" if "x \<in> set (takeWhile (\<lambda>y. y \<noteq> ?k) grp)" for x
  proof -
    from takeWhile_neq_nth [OF that il] obtain j where j: "j < i" "grp ! j = x" by blast
    then have "?ts ! j \<noteq> ?M" using i(4) by blast
    then have "pt x \<noteq> ?M" using j il by simp
    moreover have "pt x \<le> ?M" using j il by (intro Max_ge) auto
    ultimately show ?thesis using ptk by simp
  qed
  have a: "\<forall>x\<in>set grp. not_later fs x ?k" using nl kin le by simp
  have b: "\<forall>x\<in>set (takeWhile (\<lambda>y. y \<noteq> ?k) grp). \<not> not_later fs ?k x"
  proof
    fix x assume x: "x \<in> set (takeWhile (\<lambda>y. y \<noteq> ?k) grp)"
    then have "x \<in> set grp" by (rule set_takeWhileD [THEN conjunct1])
    then show "\<not> not_later fs ?k x" using nl kin lt [OF x] by simp
  qed
  have "latest_in fs ?k grp" using True kin a b by (simp add: latest_in_def)
  with k show ?thesis by blast
qed

lemma filter_loop_groups:
  "\<forall>x\<in>set xs. scene_key x \<noteq> None \<Longrightarrow> groups_readable fs (consecutive_groups scene_key xs) \<Longrightarrow>
   \<exists>ks. filter_loop fs xs keep = Inr (keep @ ks) \<and>
        list_all2 (latest_in fs) ks (consecutive_groups scene_key xs)"
proof (induction "length xs" arbitrary: xs keep rule: less_induct)
  case less
  show ?case
  proof (cases xs)
    case Nil
    then show ?thesis by (simp add: filter_loop.simps consecutive_groups.simps)
  next
    case (Cons x xs')
    have "scene_key x \<noteq> None" using less.prems(1) Cons by simp
    then obtain m where m: "scene_key x = Some m" by blast
    let ?P = "\<lambda>y. scene_key y = scene_key x"
    let ?grp = "x # takeWhile ?P xs'"
    let ?rest = "dropWhile ?P xs'"
    have gs: "consecutive_groups scene_key xs = ?grp # consecutive_groups scene_key ?rest"
      by (simp add: Cons consecutive_groups.simps)
    have xs': "\<forall>y\<in>set xs'. scene_key y \<noteq> None" using less.prems(1) Cons by simp
    have cg: "collect_group m xs' = Inr (takeWhile ?P xs', ?rest)"
      using collect_group_eq [OF xs', of m] by (simp add: m)
    have sub2: "set ?rest \<subseteq> set xs"
      unfolding Cons by (auto dest: set_dropWhileD)
    have rd: "1 < length ?grp \<longrightarrow> (\<forall>y\<in>set ?grp. readable fs y)"
      using less.prems(2) unfolding gs groups_readable_def by simp
    have "?grp \<noteq> []" by simp
    from keep_of_group_latest [OF this rd]
    obtain k where k: "keep_of_group fs ?grp = Inr k" "latest_in fs k ?grp" by blast
    have len: "length ?rest < length xs"
      using length_dropWhile_le [of ?P xs'] Cons by simp
    have r1: "\<forall>y\<in>set ?rest. scene_key y \<noteq> None" using less.prems(1) sub2 by blast
    have r2: "groups_readable fs (consecutive_groups scene_key ?rest)"
      using less.prems(2) unfolding gs groups_readable_def by simp
    from less.hyps [OF len r1 r2, of "keep @ [k]"]
    obtain ks where ks: "filter_loop fs ?rest (keep @ [k]) = Inr ((keep @ [k]) @ ks)"
      "list_all2 (latest_in fs) ks (consecutive_groups scene_key ?rest)" by blast
    have "filter_loop fs xs keep = Inr (keep @ (k # ks))"
      using m cg k(1) ks(1) by (simp add: Cons filter_loop.simps)
    moreover have "list_all2 (latest_in fs) (k # ks) (consecutive_groups scene_key xs)"
      using k(2) ks(2) unfolding gs by simp
    ultimately show ?thesis by blast
  qed
qed

lemma concat_consecutive_groups: "concat (consecutive_groups f xs) = xs"
proof (induction f xs rule: consecutive_groups.induct)
  case (1 f)
  show ?case by (simp add: consecutive_groups.simps)
next
  case (2 f x xs)
  then show ?case by (simp add: consecutive_groups.simps)
qed

lemma consecutive_groups_const:
  "g \<in> set (consecutive_groups f xs) \<Longrightarrow> g \<noteq> [] \<and> (\<forall>y\<in>set g. f y = f (hd g))"
proof (induction f xs rule: consecutive_groups.induct)
  case (1 f)
  then show ?case by (simp add: consecutive_groups.simps)
next
  case (2 f x xs)
  from "2.prems" consider "g = x # takeWhile (\<lambda>y. f y = f x) xs"
    | "g \<in> set (consecutive_groups f (dropWhile (\<lambda>y. f y = f x) xs))"
    by (auto simp: consecutive_groups.simps)
  then show ?case
  proof cases
    case 1
    then show ?thesis by (auto dest: set_takeWhileD)
  next
    case 2
    then show ?thesis by (rule "2.IH")
  qed
qed

lemma keys_consecutive_groups:
  "map (\<lambda>g. f (hd g)) (consecutive_groups f xs) = remdups_adj (map f xs)"
proof (induction f xs rule: consecutive_groups.induct)
  case (1 f)
  show ?case by (simp add: consecutive_groups.simps)
next
  case (2 f x xs)
  have "remdups_adj (map f (x # xs)) =
        f x # remdups_adj (map f (dropWhile ((\<lambda>y. y = f x) \<circ> f) xs))"
    by (simp add: remdups_adj_Cons' dropWhile_map)
  also have "(\<lambda>y. y = f x) \<circ> f = (\<lambda>y. f y = f x)" by (simp add: fun_eq_iff)
  finally show ?case using "2.IH" by (simp add: consecutive_groups.simps)
qed

lemma latest_in_member: "latest_in fs k g \<Longrightarrow> k \<in> set g"
  by (simp add: latest_in_def split: if_splits)

lemma picks_subset:
  "list_all2 (\<lambda>k g. k \<in> set g) ks gs \<Longrightarrow> set ks \<subseteq> set (concat gs)"
  by (induction rule: list_all2_induct) auto

lemma sorted_picks:
  "list_all2 (\<lambda>k g. k \<in> set g) ks gs \<Longrightarrow> sorted (concat gs) \<Longrightarrow> sorted ks"
proof (induction rule: list_all2_induct)
  case Nil
  then show ?case by simp
next
  case (Cons k ks g gs)
  from Cons.prems have s: "sorted (concat gs)" and
    le: "\<forall>x\<in>set g. \<forall>y\<in>set (concat gs). x \<le> y"
    by (simp_all add: sorted_append)
  have "set ks \<subseteq> set (concat gs)" using Cons.hyps(2) by (rule picks_subset)
  with le Cons.hyps(1) have "\<forall>y\<in>set ks. k \<le> y" by blast
  with Cons.IH [OF s] show ?case by simp
qed

lemma sorted_distinct_adj:
  fixes xs :: "'a::linorder list"
  shows "sorted xs \<Longrightarrow> distinct_adj xs \<Longrightarrow> distinct xs"
proof (induction xs)
  case Nil
  then show ?case by simp
next
  case (Cons x xs)
  have "distinct_adj xs" using Cons.prems(2) by (rule distinct_adj_ConsD)
  moreover have "sorted xs" using Cons.prems(1) by simp
  ultimately have d: "distinct xs" by (rule Cons.IH [rotated])
  have "x \<notin> set xs"
  proof (cases xs)
    case Nil
    then show ?thesis by simp
  next
    case (Cons y ys)
    have "x \<noteq> y" using Cons.prems(2) Cons by (simp add: distinct_adj_Cons)
    moreover have "x \<le> y" "\<forall>z\<in>set ys. y \<le> z" using Cons.prems(1) Cons by auto
    ultimately show ?thesis using Cons by auto
  qed
  with d show ?case by simp
qed

lemma keep_keys:
  assumes "list_all2 (\<lambda>k g. k \<in> set g) ks (consecutive_groups f xs)"
  shows "map f ks = remdups_adj (map f xs)"
proof -
  have "map f ks = map (\<lambda>g. f (hd g)) (consecutive_groups f xs)"
  proof (rule nth_equalityI)
    show "length (map f ks) = length (map (\<lambda>g. f (hd g)) (consecutive_groups f xs))"
      using assms by (simp add: list_all2_lengthD)
  next
    fix i assume "i < length (map f ks)"
    then have i: "i < length ks" by simp
    then have ig: "i < length (consecutive_groups f xs)"
      using assms by (simp add: list_all2_lengthD)
    have "ks ! i \<in> set (consecutive_groups f xs ! i)"
      using assms i by (rule list_all2_nthD)
    moreover have "consecutive_groups f xs ! i \<in> set (consecutive_groups f xs)"
      using ig by simp
    ultimately have "f (ks ! i) = f (hd (consecutive_groups f xs ! i))"
      using consecutive_groups_const by blast
    then show "map f ks ! i = map (\<lambda>g. f (hd g)) (consecutive_groups f xs) ! i"
      using i ig by simp
  qed
  then show ?thesis by (simp add: keys_consecutive_groups)
qed

lemma consecutive_groups_filter:
  "distinct (remdups_adj (map f xs)) \<Longrightarrow> g \<in> set (consecutive_groups f xs) \<Longrightarrow>
   g = filter (\<lambda>y. f y = f (hd g)) xs"
proof (induction f xs rule: consecutive_groups.induct)
  case (1 f)
  then show ?case by (simp add: consecutive_groups.simps)
next
  case (2 f x xs)
  let ?P = "\<lambda>y. f y = f x"
  let ?rest = "dropWhile ?P xs"
  have "remdups_adj (map f (x # xs)) =
        f x # remdups_adj (map f (dropWhile ((\<lambda>y. y = f x) \<circ> f) xs))"
    by (simp add: remdups_adj_Cons' dropWhile_map)
  also have "(\<lambda>y. y = f x) \<circ> f = ?P" by (simp add: fun_eq_iff)
  finally have rd: "remdups_adj (map f (x # xs)) = f x # remdups_adj (map f ?rest)" .
  from "2.prems"(1) have nx: "f x \<notin> f ` set ?rest"
    and d: "distinct (remdups_adj (map f ?rest))" unfolding rd by simp_all
  have none: "filter ?P ?rest = []"
    unfolding filter_empty_conv
  proof
    fix y assume "y \<in> set ?rest"
    then have "f y \<in> f ` set ?rest" by (rule imageI)
    with nx show "\<not> f y = f x" by auto
  qed
  have all: "filter ?P (takeWhile ?P xs) = takeWhile ?P xs"
    by (rule filter_True) (auto dest: set_takeWhileD)
  have split: "xs = takeWhile ?P xs @ ?rest" by simp
  from "2.prems"(2) consider "g = x # takeWhile ?P xs" | "g \<in> set (consecutive_groups f ?rest)"
    by (auto simp: consecutive_groups.simps)
  then show ?case
  proof cases
    case 1
    have "filter ?P xs = filter ?P (takeWhile ?P xs) @ filter ?P ?rest"
      by (subst split) (simp only: filter_append)
    then have "filter ?P (x # xs) = x # takeWhile ?P xs" using none all by simp
    then show ?thesis using 1 by simp
  next
    case 2
    let ?Q = "\<lambda>y. f y = f (hd g)"
    from "2.IH" [OF d 2] have g: "g = filter ?Q ?rest" .
    from consecutive_groups_const [OF 2] have "g \<noteq> []" by simp
    then have "hd g \<in> set g" by simp
    then have "hd g \<in> set ?rest" by (subst (asm) g) simp
    then have "f (hd g) \<in> f ` set ?rest" by (rule imageI)
    with nx have ne: "f (hd g) \<noteq> f x" by auto
    have "filter ?Q (takeWhile ?P xs) = []"
      using ne by (auto simp: filter_empty_conv dest: set_takeWhileD)
    moreover have "filter ?Q xs = filter ?Q (takeWhile ?P xs) @ filter ?Q ?rest"
      by (subst split) (simp only: filter_append)
    ultimately have "filter ?Q (x # xs) = filter ?Q ?rest" using ne by simp
    with g show ?thesis by simp
  qed
qed

text \<open>
  Claim C1, as amended. For every list of scene locations whose basenames contain the
  pattern, in which sorting the locations makes the entries with equal (token, start,
  stop) triples adjacent, and with readable manifests for the scenes whose triple occurs
  more than once: duplicate resolution succeeds and returns exactly one entry for each
  distinct triple of the input. The entry of a triple that occurs once is its scene
  itself; the entry of a triple that occurs more often is the first member, in sorted
  order, whose manifest declares the latest processing start time among the members with
  that triple. The output is in ascending order of the locations, which is the order of
  the groups in the sorted list and not in the input.
\<close>

theorem filter_duplicates_groups:
  assumes pat: "\<forall>s\<in>set scenes. scene_key s \<noteq> None"
    and adj: "adjacent_when_sorted scenes"
    and rd: "\<forall>s\<in>set scenes. 1 < length (triple_group scenes s) \<longrightarrow> readable fs s"
  shows "\<exists>keep. filter_duplicates fs scenes = Inr keep \<and>
      distinct (map scene_key keep) \<and>
      scene_key ` set keep = scene_key ` set scenes \<and>
      set keep \<subseteq> set scenes \<and>
      (\<forall>k\<in>set keep. latest_in fs k (triple_group scenes k)) \<and>
      sorted keep"
proof -
  let ?tmp = "sort scenes"
  let ?gs = "consecutive_groups scene_key ?tmp"
  have adj': "distinct (remdups_adj (map scene_key ?tmp))"
    using adj by (simp add: adjacent_when_sorted_def)
  have cc: "concat ?gs = ?tmp" by (rule concat_consecutive_groups)
  have grp: "g = triple_group scenes x" if g: "g \<in> set ?gs" and x: "x \<in> set g" for g x
  proof -
    have "scene_key x = scene_key (hd g)" using consecutive_groups_const [OF g] x by blast
    moreover have "g = filter (\<lambda>y. scene_key y = scene_key (hd g)) ?tmp"
      using adj' g by (rule consecutive_groups_filter)
    ultimately show ?thesis by (simp add: triple_group_def)
  qed
  have mem: "x \<in> set scenes" if "g \<in> set ?gs" "x \<in> set g" for g x
  proof -
    from that have "x \<in> set (concat ?gs)" by auto
    then show ?thesis by (simp add: cc)
  qed
  have rd': "groups_readable fs ?gs"
    unfolding groups_readable_def
  proof (intro ballI impI)
    fix g x assume g: "g \<in> set ?gs" and l: "1 < length g" and x: "x \<in> set g"
    from grp [OF g x] l have "1 < length (triple_group scenes x)" by simp
    with rd mem [OF g x] show "readable fs x" by blast
  qed
  have pat': "\<forall>s\<in>set ?tmp. scene_key s \<noteq> None" using pat by simp
  from filter_loop_groups [OF pat' rd', of "[]"]
  obtain keep where keep: "filter_loop fs ?tmp [] = Inr keep"
    and la: "list_all2 (latest_in fs) keep ?gs" by auto
  have r: "filter_duplicates fs scenes = Inr keep"
    using keep by (simp add: filter_duplicates_def)
  have picks: "list_all2 (\<lambda>k g. k \<in> set g) keep ?gs"
    using la by (rule list_all2_mono) (rule latest_in_member)
  have keys: "map scene_key keep = remdups_adj (map scene_key ?tmp)"
    using picks by (rule keep_keys)
  have dk: "distinct (map scene_key keep)" using adj' by (simp add: keys)
  have "set (map scene_key keep) = set (map scene_key ?tmp)" unfolding keys by simp
  then have img: "scene_key ` set keep = scene_key ` set scenes" by simp
  have sk: "sorted keep" using picks by (rule sorted_picks) (simp add: cc)
  have sub: "set keep \<subseteq> set scenes" using picks_subset [OF picks] by (simp add: cc)
  have len: "length keep = length ?gs" using la by (rule list_all2_lengthD)
  have best: "\<forall>k\<in>set keep. latest_in fs k (triple_group scenes k)"
  proof
    fix k assume "k \<in> set keep"
    then obtain i where i: "i < length keep" "keep ! i = k" by (auto simp: in_set_conv_nth)
    have li: "latest_in fs k (?gs ! i)" using list_all2_nthD [OF la i(1)] i(2) by simp
    then have ki: "k \<in> set (?gs ! i)" by (rule latest_in_member)
    have gi: "?gs ! i \<in> set ?gs" using i(1) len by simp
    from grp [OF gi ki] li show "latest_in fs k (triple_group scenes k)" by simp
  qed
  from r dk img sub best sk show ?thesis by blast
qed

theorem filter_duplicates_groups_witness:
  "\<exists>keep. filter_duplicates fs0 [sB, sA2, sA] = Inr keep \<and> keep = [sA2, sB] \<and>
      distinct (map scene_key keep) \<and>
      scene_key ` set keep = scene_key ` set [sB, sA2, sA] \<and>
      latest_in fs0 sA2 (triple_group [sB, sA2, sA] sA2) \<and>
      latest_in fs0 sB (triple_group [sB, sA2, sA] sB) \<and>
      sorted keep"
proof -
  have h1: "\<forall>s\<in>set [sB, sA2, sA]. scene_key s \<noteq> None" by code_simp
  have h2: "adjacent_when_sorted [sB, sA2, sA]" by code_simp
  have h3: "\<forall>s\<in>set [sB, sA2, sA]. 1 < length (triple_group [sB, sA2, sA] s) \<longrightarrow> readable fs0 s"
    by code_simp
  have v: "filter_duplicates fs0 [sB, sA2, sA] = Inr [sA2, sB]" by code_simp
  from filter_duplicates_groups [OF h1 h2 h3] obtain keep where
    k: "filter_duplicates fs0 [sB, sA2, sA] = Inr keep"
    "distinct (map scene_key keep)"
    "scene_key ` set keep = scene_key ` set [sB, sA2, sA]"
    "\<forall>k\<in>set keep. latest_in fs0 k (triple_group [sB, sA2, sA] k)"
    "sorted keep"
    by (elim exE conjE) (rule that, assumption+)
  from k(1) v have e: "keep = [sA2, sB]" by simp
  from k(4) e have l: "latest_in fs0 sA2 (triple_group [sB, sA2, sA] sA2)"
    "latest_in fs0 sB (triple_group [sB, sA2, sA] sB)" by simp_all
  from k(1) e k(2) k(3) l k(5) show ?thesis by (intro exI [of _ keep] conjI)
qed

text \<open>
  The claim as stated fails on the order of the output: the groups of \<open>[sB, sA]\<close> come
  back in the order \<open>[sA, sB]\<close> of the sorted list, not in the order of the input.
\<close>

theorem filter_duplicates_counterexample:
  "filter_duplicates fs0 [sB, sA] = Inr [sA, sB] \<and> sB \<noteq> sA \<and>
   scene_key sB \<noteq> scene_key sA"
  by code_simp

text \<open>
  The condition on the sorted list is not met by every input. The list is sorted by the
  full paths while the triples are read from the basenames, so two processings of one
  acquisition in the folders \<^verbatim>\<open>/a\<close> and \<^verbatim>\<open>/c\<close>, with a scene of the folder \<^verbatim>\<open>/b\<close> between
  them, are never compared and both come back. This is a defect of the resolution, against
  the invariant of section 3 of the specification that one scene survives among those
  with the same triple; the statement above does not cover it.
\<close>

lemma filter_duplicates_across_folders:
  "\<not> adjacent_when_sorted [pA, qB, pC] \<and> scene_key pA = scene_key pC \<and> pA \<noteq> pC \<and>
   filter_duplicates fs0 [pA, qB, pC] = Inr [pA, qB, pC]"
  by code_simp

subsection \<open>Existence check of \<^verbatim>\<open>STACArchive.select\<close>\<close>






lemma py_index_less: "py_index xs v = Inr i \<Longrightarrow> i < length xs"
  by (induction xs arbitrary: i) (auto split: if_splits sum.splits)

lemma keep_of_group_member: "keep_of_group fs grp = Inr k \<Longrightarrow> k \<in> set grp"
  by (auto simp: keep_of_group_def py_nth_def split: if_splits sum.splits)





subsection \<open>Neighbours of a scene\<close>

lemma collect_group_split:
  "collect_group m xs = Inr (grp, rest) \<Longrightarrow>
   grp = takeWhile (\<lambda>y. scene_key y = Some m) xs \<and> rest = dropWhile (\<lambda>y. scene_key y = Some m) xs"
proof (induction xs arbitrary: grp rest)
  case Nil
  then show ?case by simp
next
  case (Cons x xs)
  then show ?case by (auto split: option.splits if_splits sum.splits prod.splits)
qed

lemma filter_loop_picks:
  "filter_loop fs xs keep = Inr r \<Longrightarrow>
   \<exists>ks. r = keep @ ks \<and> list_all2 (\<lambda>k g. k \<in> set g) ks (consecutive_groups scene_key xs)"
proof (induction fs xs keep arbitrary: r rule: filter_loop.induct)
  case (1 fs keep)
  then show ?case by (simp add: filter_loop.simps consecutive_groups.simps)
next
  case (2 fs x xs keep)
  from "2.prems" obtain m grp rest k where
    m: "scene_key x = Some m" and cg: "collect_group m xs = Inr (grp, rest)"
    and k: "keep_of_group fs (x # grp) = Inr k" and r: "filter_loop fs rest (keep @ [k]) = Inr r"
    by (auto simp: filter_loop.simps split: option.splits sum.splits prod.splits)
  let ?P = "\<lambda>y. scene_key y = scene_key x"
  from collect_group_split [OF cg] m
  have g: "grp = takeWhile ?P xs" and rs: "rest = dropWhile ?P xs" by simp_all
  from "2.IH" [OF m cg refl k r] obtain ks where
    ks: "r = (keep @ [k]) @ ks"
    "list_all2 (\<lambda>k g. k \<in> set g) ks (consecutive_groups scene_key rest)" by blast
  have kin: "k \<in> set (x # grp)" using k by (rule keep_of_group_member)
  have "list_all2 (\<lambda>k g. k \<in> set g) (k # ks) (consecutive_groups scene_key (x # xs))"
    using kin ks(2) unfolding g rs by (simp add: consecutive_groups.simps)
  moreover have "r = keep @ (k # ks)" using ks(1) by simp
  ultimately show ?case by blast
qed

lemma filter_duplicates_distinct:
  assumes "filter_duplicates fs scenes = Inr keep"
  shows "sorted keep \<and> distinct keep"
proof -
  let ?gs = "consecutive_groups scene_key (sort scenes)"
  from assms have "filter_loop fs (sort scenes) [] = Inr keep"
    by (simp add: filter_duplicates_def)
  from filter_loop_picks [OF this]
  have mem: "list_all2 (\<lambda>k g. k \<in> set g) keep ?gs" by simp
  have cc: "concat ?gs = sort scenes" by (rule concat_consecutive_groups)
  have sk: "sorted keep" using mem by (rule sorted_picks) (simp add: cc)
  have "map scene_key keep = remdups_adj (map scene_key (sort scenes))"
    using mem by (rule keep_keys)
  then have "distinct_adj (map scene_key keep)" by simp
  then have "distinct_adj keep" by (rule distinct_adj_mapD)
  with sk have "distinct keep" by (rule sorted_distinct_adj)
  with sk show ?thesis by simp
qed

lemma py_index_remove1:
  "v \<in> set xs \<Longrightarrow>
   \<exists>i. py_index xs v = Inr i \<and> take i xs @ drop (Suc i) xs = remove1 v xs"
proof (induction xs)
  case Nil
  then show ?case by simp
next
  case (Cons x xs)
  show ?case
  proof (cases "x = v")
    case True
    then show ?thesis by simp
  next
    case False
    with Cons.prems have "v \<in> set xs" by simp
    from Cons.IH [OF this] obtain i where
      "py_index xs v = Inr i" "take i xs @ drop (Suc i) xs = remove1 v xs" by blast
    with False show ?thesis by simp
  qed
qed

lemma py_index_absent: "v \<notin> set xs \<Longrightarrow> py_index xs v = Inl ValueError"
  by (induction xs) auto

lemma in_remove1_count: "v \<in> set xs \<Longrightarrow> (v \<notin> set (remove1 v xs)) = (count_list xs v = 1)"
proof (induction xs)
  case Nil
  then show ?case by simp
next
  case (Cons x xs)
  show ?case
  proof (cases "x = v")
    case True
    then show ?thesis by (simp add: count_list_0_iff)
  next
    case False
    with Cons show ?thesis by simp
  qed
qed

text \<open>
  Claim C10, as amended. The selection of \<^verbatim>\<open>collect_neighbors\<close> is that of the archive over
  the window of the scene widened by two seconds on both sides, with loose dates and the
  sensor, product and mode of the scene. If the location of the scene occurs in the
  selection, \<^verbatim>\<open>collect_neighbors\<close> returns the selection without the first occurrence of
  that location, one entry fewer; the scene is then absent from the neighbours returned
  exactly when it occurred once in the selection, and always so for a \<^verbatim>\<open>STACArchive\<close>,
  whose selections are free of duplicates. If the location does not occur, the call
  raises \<^verbatim>\<open>ValueError\<close> and returns no list.
\<close>

theorem collect_neighbors_removes_one:
  assumes "archive_select arch (neighbor_args scene) = Inr (Locs selection)"
  shows "(id_scene scene \<in> set selection \<longrightarrow>
            collect_neighbors arch scene = Inr (remove1 (id_scene scene) selection) \<and>
            length (remove1 (id_scene scene) selection) + 1 = length selection \<and>
            ((id_scene scene \<notin> set (remove1 (id_scene scene) selection)) =
             (count_list selection (id_scene scene) = 1))) \<and>
         (id_scene scene \<notin> set selection \<longrightarrow> collect_neighbors arch scene = Inl ValueError) \<and>
         ((\<exists>env. arch = STACArchive env) \<longrightarrow>
            id_scene scene \<notin> set (remove1 (id_scene scene) selection)) \<and>
         neighbor_args scene =
           no_args\<lparr>q_mindate := Some (id_start scene - 2000000),
             q_maxdate := Some (id_stop scene + 2000000), q_date_strict := Some False,
             q_sensor := Some (Single (id_sensor scene)),
             q_product := Some (Single (id_product scene)),
             q_acquisition_mode := Some (Single (id_acquisition_mode scene))\<rparr>"
proof -
  let ?v = "id_scene scene"
  have cn: "collect_neighbors arch scene =
      (case py_index selection ?v of
         Inl e \<Rightarrow> Inl e
       | Inr i \<Rightarrow> Inr (take i selection @ drop (Suc i) selection))"
    using assms by (simp add: collect_neighbors_def)
  have 1: "collect_neighbors arch scene = Inr (remove1 ?v selection) \<and>
      length (remove1 ?v selection) + 1 = length selection \<and>
      ((?v \<notin> set (remove1 ?v selection)) = (count_list selection ?v = 1))"
    if mem: "?v \<in> set selection"
  proof -
    from py_index_remove1 [OF mem] obtain i where
      "py_index selection ?v = Inr i" "take i selection @ drop (Suc i) selection = remove1 ?v selection"
      by blast
    then have "collect_neighbors arch scene = Inr (remove1 ?v selection)" by (simp add: cn)
    moreover have "length (remove1 ?v selection) + 1 = length selection"
      using mem by (simp add: length_remove1) (cases selection, auto)
    moreover note in_remove1_count [OF mem]
    ultimately show ?thesis by simp
  qed
  have 2: "collect_neighbors arch scene = Inl ValueError" if "?v \<notin> set selection"
    using py_index_absent [OF that] by (simp add: cn)
  have 3: "?v \<notin> set (remove1 ?v selection)" if "\<exists>env. arch = STACArchive env"
  proof -
    from that obtain env where "arch = STACArchive env" by blast
    with assms have "stac_select env (neighbor_args scene) = Inr selection"
      by (simp add: archive_select_def split: sum.splits)
    then obtain paths where "filter_duplicates (read_manifest env) paths = Inr selection"
      by (auto simp: stac_select_def split: if_splits sum.splits)
    then have "distinct selection" using filter_duplicates_distinct by blast
    then show ?thesis by simp
  qed
  have 4: "neighbor_args scene =
           no_args\<lparr>q_mindate := Some (id_start scene - 2000000),
             q_maxdate := Some (id_stop scene + 2000000), q_date_strict := Some False,
             q_sensor := Some (Single (id_sensor scene)),
             q_product := Some (Single (id_product scene)),
             q_acquisition_mode := Some (Single (id_acquisition_mode scene))\<rparr>"
    by (simp add: neighbor_args_def buffer_time_def)
  show ?thesis
  proof (intro conjI impI)
    assume "?v \<in> set selection"
    from 1 [OF this] show "collect_neighbors arch scene = Inr (remove1 ?v selection)"
      and "length (remove1 ?v selection) + 1 = length selection"
      and "(?v \<notin> set (remove1 ?v selection)) = (count_list selection ?v = 1)" by simp_all
  next
    assume "?v \<notin> set selection"
    then show "collect_neighbors arch scene = Inl ValueError" by (rule 2)
  next
    assume "\<exists>env. arch = STACArchive env"
    then show "?v \<notin> set (remove1 ?v selection)" by (rule 3)
  next
    show "neighbor_args scene =
           no_args\<lparr>q_mindate := Some (id_start scene - 2000000),
             q_maxdate := Some (id_stop scene + 2000000), q_date_strict := Some False,
             q_sensor := Some (Single (id_sensor scene)),
             q_product := Some (Single (id_product scene)),
             q_acquisition_mode := Some (Single (id_acquisition_mode scene))\<rparr>" by (rule 4)
  qed
qed

theorem collect_neighbors_removes_one_witness:
  "collect_neighbors archP scA = Inr [sB] \<and> id_scene scA \<notin> set [sB] \<and>
   collect_neighbors archP (scA\<lparr>id_scene := ''/data/other.SAFE''\<rparr>) = Inl ValueError"
proof -
  have h: "archive_select archP (neighbor_args s) = Inr (Locs [sA, sB])" for s
    by (simp add: archP_def archive_select_def)
  have m: "id_scene scA \<in> set [sA, sB]" by (simp add: scA_def)
  have r: "remove1 (id_scene scA) [sA, sB] = [sB]" by (simp add: scA_def)
  have n: "id_scene (scA\<lparr>id_scene := ''/data/other.SAFE''\<rparr>) \<notin> set [sA, sB]" by code_simp
  have c: "count_list [sA, sB] (id_scene scA) = 1" by code_simp
  note t1 = collect_neighbors_removes_one [OF h, of scA, THEN conjunct1, rule_format, OF m]
  note t2 = collect_neighbors_removes_one [OF h, of "scA\<lparr>id_scene := ''/data/other.SAFE''\<rparr>",
     THEN conjunct2, THEN conjunct1, rule_format, OF n]
  have a: "collect_neighbors archP scA = Inr [sB]" using t1 r by simp
  have b: "id_scene scA \<notin> set [sB]" using t1 r c by simp
  from a b t2 show ?thesis by (intro conjI)
qed

text \<open>
  The claim as stated fails for an archive whose selection holds the location twice:
  \<^verbatim>\<open>asf_select\<close> sorts the properties of the features it found and removes no duplicate,
  so an ASF answer with the same \<^verbatim>\<open>url\<close> twice leaves the scene among its own neighbours.
\<close>

theorem collect_neighbors_counterexample:
  "archive_select (ASFArchive asf_dup) (neighbor_args scU) = Inr (Locs [id_scene scU, id_scene scU]) \<and>
   collect_neighbors (ASFArchive asf_dup) scU = Inr [id_scene scU]"
  by code_simp

subsection \<open>Date clauses of the catalog filter\<close>

lemma collect_clauses_filter:
  "collect_clauses xs = Inr cs \<Longrightarrow>
   filter P cs =
     concat (map (\<lambda>x. case x of Some (Inr c) \<Rightarrow> if P c then [c] else [] | other \<Rightarrow> []) xs)"
proof (induction xs arbitrary: cs rule: collect_clauses.induct)
  case 1
  then show ?case by simp
next
  case (2 cs')
  then show ?case by simp
next
  case (3 e cs')
  then show ?case by simp
next
  case (4 c cs')
  then show ?case by (auto split: sum.splits)
qed

lemma equals_clauses_no_date:
  "p \<noteq> ''start_datetime'' \<Longrightarrow> p \<noteq> ''end_datetime'' \<Longrightarrow> \<not> is_date_clause (equals_clauses p vals)"
  by (cases vals rule: list.exhaust [case_product list.exhaust])
     (auto simp: equals_clauses_def split: list.splits)

lemma sensor_clause_no_date: "sensor_clause v = Inr c \<Longrightarrow> \<not> is_date_clause c"
  by (auto simp: sensor_clause_def equals_clauses_no_date split: sum.splits)

lemma vector_clause_no_date: "vector_clause v = Inr c \<Longrightarrow> \<not> is_date_clause c"
  by (auto simp: vector_clause_def split: vector_arg.splits prod.splits)

lemma strict_features_filter:
  "strict_features (Some lo) (Some hi) found =
     Inr (filter (\<lambda>x. lo \<le> f_startTime x \<and> f_stopTime x \<le> hi) found)"
  by (induction found) auto

text \<open>
  Claim C3. In the filter that \<^verbatim>\<open>STACArchive.select\<close> generates, the clauses on the two date
  properties are exactly these, in this order: for \<^verbatim>\<open>mindate\<close>, if set, the start of the
  scene at or after it under strict dates (\<^verbatim>\<open>start_datetime >= mindate\<close>) and the stop at or
  after it under loose dates (\<^verbatim>\<open>end_datetime >= mindate\<close>); for \<^verbatim>\<open>maxdate\<close>, if set, the
  stop at or before it under strict dates (\<^verbatim>\<open>end_datetime <= maxdate\<close>) and the start at or
  before it under loose dates (\<^verbatim>\<open>start_datetime <= maxdate\<close>). The strict filter of
  \<^verbatim>\<open>asf_select\<close> keeps the features with \<^verbatim>\<open>mindate <= startTime\<close> and
  \<^verbatim>\<open>stopTime <= maxdate\<close>.
\<close>

theorem date_filter_bindings:
  "(build_filter a = Inr flt \<longrightarrow>
      date_clauses flt =
        (case q_mindate a of
           None \<Rightarrow> []
         | Some lo \<Rightarrow>
             [Cmp ''>='' (if date_strict a then ''start_datetime'' else ''end_datetime'') (Stamp lo)]) @
        (case q_maxdate a of
           None \<Rightarrow> []
         | Some hi \<Rightarrow>
             [Cmp ''<='' (if date_strict a then ''end_datetime'' else ''start_datetime'') (Stamp hi)])) \<and>
   strict_features (Some lo) (Some hi) found =
     Inr (filter (\<lambda>x. lo \<le> f_startTime x \<and> f_stopTime x \<le> hi) found)"
proof (intro conjI impI)
  assume b: "build_filter a = Inr flt"
  then obtain cs where cs: "collect_clauses (filter_clauses a) = Inr cs" and flt: "flt = And cs"
    by (auto simp: build_filter_def split: sum.splits)
  let ?sel = "\<lambda>x. case x of Some (Inr c) \<Rightarrow> if is_date_clause c then [c] else [] | other \<Rightarrow> []"
  have s1: "?sel (map_option sensor_clause v) = []" for v
    by (cases v) (auto split: sum.splits dest: sensor_clause_no_date)
  have s2: "?sel (map_option (\<lambda>v. Inr (equals_clauses ''sar:product_type'' (g v))) v) = []" for v g
    by (cases v) (simp_all add: equals_clauses_no_date)
  have s3: "?sel (map_option (\<lambda>v. Inr (equals_clauses ''sar:instrument_mode'' (g v))) v) = []" for v g
    by (cases v) (simp_all add: equals_clauses_no_date)
  have s4: "?sel (map_option (\<lambda>v. Inr (equals_clauses ''s1:datatake'' (g v))) v) = []" for v g
    by (cases v) (simp_all add: equals_clauses_no_date)
  have s5: "?sel (map_option vector_clause v) = []" for v
    by (cases v) (auto split: sum.splits dest: vector_clause_no_date)
  have s6: "?sel (map_option (\<lambda>v. (Inr (mindate_clause st v) :: error + cql)) v) =
      (case v of None \<Rightarrow> []
       | Some lo \<Rightarrow> [Cmp ''>='' (if st then ''start_datetime'' else ''end_datetime'') (Stamp lo)])"
    for v st by (cases v) (simp_all add: mindate_clause_def)
  have s7: "?sel (map_option (\<lambda>v. (Inr (maxdate_clause st v) :: error + cql)) v) =
      (case v of None \<Rightarrow> []
       | Some hi \<Rightarrow> [Cmp ''<='' (if st then ''end_datetime'' else ''start_datetime'') (Stamp hi)])"
    for v st by (cases v) (simp_all add: maxdate_clause_def)
  have "date_clauses flt = concat (map ?sel (filter_clauses a))"
    unfolding flt using collect_clauses_filter [OF cs, of is_date_clause] by simp
  also have "\<dots> = ?sel (map_option (\<lambda>v. (Inr (mindate_clause (date_strict a) v) :: error + cql)) (q_mindate a)) @
      ?sel (map_option (\<lambda>v. (Inr (maxdate_clause (date_strict a) v) :: error + cql)) (q_maxdate a))"
    unfolding filter_clauses_def list.map concat.simps s1 s2 s3 s4 s5 append_Nil append_Nil2
    by (rule refl)
  finally show "date_clauses flt =
        (case q_mindate a of
           None \<Rightarrow> []
         | Some lo \<Rightarrow>
             [Cmp ''>='' (if date_strict a then ''start_datetime'' else ''end_datetime'') (Stamp lo)]) @
        (case q_maxdate a of
           None \<Rightarrow> []
         | Some hi \<Rightarrow>
             [Cmp ''<='' (if date_strict a then ''end_datetime'' else ''start_datetime'') (Stamp hi)])"
    by (simp only: s6 s7)
next
  show "strict_features (Some lo) (Some hi) found =
     Inr (filter (\<lambda>x. lo \<le> f_startTime x \<and> f_stopTime x \<le> hi) found)"
    by (rule strict_features_filter)
qed

theorem date_filter_bindings_witness:
  "build_filter loose_query =
     Inr (And [Cmp ''='' ''platform'' (Str ''sentinel-1a''),
               Cmp ''>='' ''end_datetime'' (Stamp 100000000),
               Cmp ''<='' ''start_datetime'' (Stamp 125000000)]) \<and>
   date_clauses (And [Cmp ''='' ''platform'' (Str ''sentinel-1a''),
               Cmp ''>='' ''end_datetime'' (Stamp 100000000),
               Cmp ''<='' ''start_datetime'' (Stamp 125000000)]) =
     [Cmp ''>='' ''end_datetime'' (Stamp 100000000), Cmp ''<='' ''start_datetime'' (Stamp 125000000)] \<and>
   (\<exists>flt. build_filter strict_query = Inr flt \<and>
      date_clauses flt =
        [Cmp ''>='' ''start_datetime'' (Stamp 100000000), Cmp ''<='' ''end_datetime'' (Stamp 125000000)])"
proof -
  let ?f = "And [Cmp ''='' ''platform'' (Str ''sentinel-1a''),
               Cmp ''>='' ''end_datetime'' (Stamp 100000000),
               Cmp ''<='' ''start_datetime'' (Stamp 125000000)]"
  have h: "build_filter loose_query = Inr ?f" by code_simp
  have q: "q_mindate loose_query = Some 100000000" "q_maxdate loose_query = Some 125000000"
    "\<not> date_strict loose_query"
    by (simp_all add: loose_query_def no_args_def date_strict_def)
  have d: "date_clauses ?f =
     [Cmp ''>='' ''end_datetime'' (Stamp 100000000), Cmp ''<='' ''start_datetime'' (Stamp 125000000)]"
    using date_filter_bindings [of loose_query ?f 0 0 "[]", THEN conjunct1, rule_format, OF h] q
    by simp
  define g where "g = And [Or [Cmp ''='' ''sar:product_type'' (Str ''GRD''),
                               Cmp ''='' ''sar:product_type'' (Str ''SLC'')],
                           Cmp ''>='' ''start_datetime'' (Stamp 100000000),
                           Cmp ''<='' ''end_datetime'' (Stamp 125000000)]"
  have g: "build_filter strict_query = Inr g" unfolding g_def by code_simp
  have q': "q_mindate strict_query = Some 100000000" "q_maxdate strict_query = Some 125000000"
    "date_strict strict_query"
    by (simp_all add: strict_query_def no_args_def date_strict_def)
  have d': "date_clauses g =
     [Cmp ''>='' ''start_datetime'' (Stamp 100000000), Cmp ''<='' ''end_datetime'' (Stamp 125000000)]"
    using date_filter_bindings [of strict_query g 0 0 "[]", THEN conjunct1, rule_format, OF g] q'
    by simp
  from h d g d' show ?thesis by blast
qed

subsection \<open>Expected group size of the completeness check\<close>

lemma py_min_Min: "xs \<noteq> [] \<Longrightarrow> py_min xs = Inr (Min (set xs))"
proof (cases xs)
  case Nil
  assume "xs \<noteq> []"
  with Nil show ?thesis by simp
next
  case (Cons a list)
  have "Min (set (a # list)) = fold min list a" by (rule Min.set_eq_fold)
  with Cons show ?thesis by simp
qed

lemma py_min_Inr: "py_min xs = Inr m \<Longrightarrow> xs \<noteq> [] \<and> m = Min (set xs)"
  using py_min_Min [of xs] by (cases xs) auto

lemma py_max_Inr: "py_max xs = Inr m \<Longrightarrow> xs \<noteq> [] \<and> m = Max (set xs)"
  using py_max_Max [of xs] by (cases xs) auto

lemma map_err_all2: "map_err f xs = Inr ys \<Longrightarrow> list_all2 (\<lambda>x y. f x = Inr y) xs ys"
  by (induction xs arbitrary: ys) (auto split: sum.splits)

lemma ref_bounds_extremes:
  assumes "ref_bounds pattern names = Inr (lo, hi)"
  shows "(\<forall>x\<in>set names. \<exists>s e. pattern (x @ ''.SAFE'') = Some (s, e) \<and> lo \<le> s \<and> e \<le> hi) \<and>
         (\<exists>x\<in>set names. \<exists>e. pattern (x @ ''.SAFE'') = Some (lo, e)) \<and>
         (\<exists>x\<in>set names. \<exists>s. pattern (x @ ''.SAFE'') = Some (s, hi))"
proof -
  let ?f = "\<lambda>x. case pattern (x @ ''.SAFE'') of None \<Rightarrow> Inl AttributeError | Some m \<Rightarrow> Inr m"
  from assms obtain match where m: "map_err ?f names = Inr match"
    and lo: "py_min (map fst match) = Inr lo" and hi: "py_max (map snd match) = Inr hi"
    by (auto simp: ref_bounds_def split: sum.splits)
  from map_err_all2 [OF m] have la: "list_all2 (\<lambda>x y. pattern (x @ ''.SAFE'') = Some y) names match"
    by (rule list_all2_mono) (auto split: option.splits)
  from py_min_Inr [OF lo] have ne: "match \<noteq> []" and lo': "lo = Min (fst ` set match)" by auto
  from py_max_Inr [OF hi] have hi': "hi = Max (snd ` set match)" by auto
  have len: "length names = length match" using la by (rule list_all2_lengthD)
  have nth: "pattern (names ! i @ ''.SAFE'') = Some (match ! i)" if "i < length names" for i
    using la that by (simp add: list_all2_conv_all_nth)
  have 1: "\<exists>s e. pattern (x @ ''.SAFE'') = Some (s, e) \<and> lo \<le> s \<and> e \<le> hi" if "x \<in> set names" for x
  proof -
    from that obtain i where i: "i < length names" "names ! i = x" by (auto simp: in_set_conv_nth)
    have mi: "match ! i \<in> set match" using i(1) len by simp
    have "lo \<le> fst (match ! i)" unfolding lo' using mi by (intro Min_le) auto
    moreover have "snd (match ! i) \<le> hi" unfolding hi' using mi by (intro Max_ge) auto
    moreover have "pattern (x @ ''.SAFE'') = Some (fst (match ! i), snd (match ! i))"
      using nth [OF i(1)] i(2) by simp
    ultimately show ?thesis by blast
  qed
  have "lo \<in> fst ` set match" unfolding lo' using ne by (intro Min_in) auto
  then obtain y where y: "y \<in> set match" "fst y = lo" by auto
  then obtain i where i: "i < length match" "match ! i = y" by (auto simp: in_set_conv_nth)
  have 2: "\<exists>x\<in>set names. \<exists>e. pattern (x @ ''.SAFE'') = Some (lo, e)"
  proof (intro bexI exI)
    show "pattern (names ! i @ ''.SAFE'') = Some (lo, snd y)"
      using nth [of i] i len y(2) by (cases y) simp
    show "names ! i \<in> set names" using i(1) len by simp
  qed
  have "hi \<in> snd ` set match" unfolding hi' using ne by (intro Max_in) auto
  then obtain z where z: "z \<in> set match" "snd z = hi" by auto
  then obtain j where j: "j < length match" "match ! j = z" by (auto simp: in_set_conv_nth)
  have 3: "\<exists>x\<in>set names. \<exists>s. pattern (x @ ''.SAFE'') = Some (s, hi)"
  proof (intro bexI exI)
    show "pattern (names ! j @ ''.SAFE'') = Some (fst z, hi)"
      using nth [of j] j len z(2) by (cases z) simp
    show "names ! j \<in> set names" using j(1) len by simp
  qed
  from 1 2 3 show ?thesis by blast
qed

text \<open>
  Claim C4, as amended. The expected group size of a scene starts at 3 and loses one for
  each absent neighbour. If slice = 0 or totalSlices = 0, the reference catalog is
  queried over the window of the scene widened by two seconds on both sides (with the
  strict dates that \<^verbatim>\<open>asf_select\<close> has by default), and the scene has no predecessor
  exactly when its start equals the least start of the reference group and no successor
  exactly when its stop equals the greatest stop of the reference group. Otherwise no
  reference query is made, and the scene has no predecessor exactly when slice = 1 and
  no successor exactly when slice = totalSlices.
\<close>

theorem expected_group_cases:
  "(id_sliceNumber scene \<noteq> 0 \<and> id_totalSlices scene \<noteq> 0 \<longrightarrow>
      expected_group asf col scene =
        Inr \<lparr>groupsize = 3 - (if id_sliceNumber scene = 1 then 1 else 0)
                           - (if id_sliceNumber scene = id_totalSlices scene then 1 else 0),
             has_predecessor = (id_sliceNumber scene \<noteq> 1),
             has_successor = (id_sliceNumber scene \<noteq> id_totalSlices scene),
             ref = None\<rparr>) \<and>
   ((id_sliceNumber scene = 0 \<or> id_totalSlices scene = 0) \<and>
    reference_group asf scene = Inr names \<and>
    ref_bounds (scene_pattern col) names = Inr (lo, hi) \<longrightarrow>
      expected_group asf col scene =
        Inr \<lparr>groupsize = 3 - (if lo = id_start scene then 1 else 0)
                           - (if hi = id_stop scene then 1 else 0),
             has_predecessor = (lo \<noteq> id_start scene),
             has_successor = (hi \<noteq> id_stop scene),
             ref = Some names\<rparr> \<and>
      (\<forall>x\<in>set names. \<exists>s e. scene_pattern col (x @ ''.SAFE'') = Some (s, e) \<and> lo \<le> s \<and> e \<le> hi) \<and>
      (\<exists>x\<in>set names. \<exists>e. scene_pattern col (x @ ''.SAFE'') = Some (lo, e)) \<and>
      (\<exists>x\<in>set names. \<exists>s. scene_pattern col (x @ ''.SAFE'') = Some (s, hi))) \<and>
   reference_group asf scene =
     (case asf_select asf (Some (Single (id_sensor scene))) (Some (Single (id_product scene)))
             (Some (Single (id_acquisition_mode scene))) (Some (id_start scene - 2000000))
             (Some (id_stop scene + 2000000)) None (RetKey ''sceneName'') True of
        Inl e \<Rightarrow> Inl e
      | Inr (Locs names) \<Rightarrow> Inr names
      | Inr other \<Rightarrow> Inl (TypeError ''not a list of names''))"
proof (intro conjI impI)
  assume "id_sliceNumber scene \<noteq> 0 \<and> id_totalSlices scene \<noteq> 0"
  then show "expected_group asf col scene =
        Inr \<lparr>groupsize = 3 - (if id_sliceNumber scene = 1 then 1 else 0)
                           - (if id_sliceNumber scene = id_totalSlices scene then 1 else 0),
             has_predecessor = (id_sliceNumber scene \<noteq> 1),
             has_successor = (id_sliceNumber scene \<noteq> id_totalSlices scene),
             ref = None\<rparr>"
    by (simp add: expected_group_def Let_def no_predecessor_def no_successor_def)
next
  assume a: "(id_sliceNumber scene = 0 \<or> id_totalSlices scene = 0) \<and>
    reference_group asf scene = Inr names \<and>
    ref_bounds (scene_pattern col) names = Inr (lo, hi)"
  then show "expected_group asf col scene =
        Inr \<lparr>groupsize = 3 - (if lo = id_start scene then 1 else 0)
                           - (if hi = id_stop scene then 1 else 0),
             has_predecessor = (lo \<noteq> id_start scene),
             has_successor = (hi \<noteq> id_stop scene),
             ref = Some names\<rparr>"
    by (simp add: expected_group_def Let_def no_predecessor_def no_successor_def)
  from a have "ref_bounds (scene_pattern col) names = Inr (lo, hi)" by simp
  from ref_bounds_extremes [OF this]
  show "\<forall>x\<in>set names. \<exists>s e. scene_pattern col (x @ ''.SAFE'') = Some (s, e) \<and> lo \<le> s \<and> e \<le> hi"
    and "\<exists>x\<in>set names. \<exists>e. scene_pattern col (x @ ''.SAFE'') = Some (lo, e)"
    and "\<exists>x\<in>set names. \<exists>s. scene_pattern col (x @ ''.SAFE'') = Some (s, hi)"
    by blast+
next
  show "reference_group asf scene =
     (case asf_select asf (Some (Single (id_sensor scene))) (Some (Single (id_product scene)))
             (Some (Single (id_acquisition_mode scene))) (Some (id_start scene - 2000000))
             (Some (id_stop scene + 2000000)) None (RetKey ''sceneName'') True of
        Inl e \<Rightarrow> Inl e
      | Inr (Locs names) \<Rightarrow> Inr names
      | Inr other \<Rightarrow> Inl (TypeError ''not a list of names''))"
    by (simp add: reference_group_def buffer_time_def)
qed

theorem expected_group_cases_witness:
  "expected_group asf1 col0 scA =
     Inr \<lparr>groupsize = 3, has_predecessor = True, has_successor = True, ref = None\<rparr> \<and>
   expected_group asf1 col0 (scA\<lparr>id_sliceNumber := 5\<rparr>) =
     Inr \<lparr>groupsize = 2, has_predecessor = True, has_successor = False, ref = None\<rparr> \<and>
   expected_group asf1 col0 (scA\<lparr>id_sliceNumber := 0, id_totalSlices := 0\<rparr>) =
     Inr \<lparr>groupsize = 1, has_predecessor = False, has_successor = False, ref = Some [''SCENE_A'']\<rparr>"
proof -
  let ?u = "scA\<lparr>id_sliceNumber := 0, id_totalSlices := 0\<rparr>"
  have s: "id_sliceNumber scA = 2" "id_totalSlices scA = 5" "id_start scA = 100000000"
    "id_stop scA = 125000000" by (simp_all add: scA_def)
  have r: "reference_group asf1 ?u = Inr [''SCENE_A'']" by code_simp
  have b: "ref_bounds (scene_pattern col0) [''SCENE_A''] = Inr (100000000, 125000000)" by code_simp
  note t = expected_group_cases [of _ asf1 col0]
  have 1: "expected_group asf1 col0 scA =
     Inr \<lparr>groupsize = 3, has_predecessor = True, has_successor = True, ref = None\<rparr>"
    using t [of scA, THEN conjunct1] s by simp
  have 2: "expected_group asf1 col0 (scA\<lparr>id_sliceNumber := 5\<rparr>) =
     Inr \<lparr>groupsize = 2, has_predecessor = True, has_successor = False, ref = None\<rparr>"
    using t [of "scA\<lparr>id_sliceNumber := 5\<rparr>", THEN conjunct1] s by simp
  have 3: "expected_group asf1 col0 ?u =
     Inr \<lparr>groupsize = 1, has_predecessor = False, has_successor = False, ref = Some [''SCENE_A'']\<rparr>"
    using t [of ?u "[''SCENE_A'']" 100000000 125000000, THEN conjunct2, THEN conjunct1] r b s
    by simp
  from 1 2 3 show ?thesis by (intro conjI)
qed

text \<open>
  The claim as stated takes the reference branch only when both numbers are 0. The code
  takes it when either is: for slice 0 of 5 the reference group, not the slice number,
  decides, and here it leaves neither neighbour expected.
\<close>

theorem expected_group_counterexample:
  "id_sliceNumber scZ = 0 \<and> id_totalSlices scZ = 5 \<and>
   expected_group asf1 col0 scZ =
     Inr \<lparr>groupsize = 1, has_predecessor = False, has_successor = False, ref = Some [''SCENE_A'']\<rparr>"
  by code_simp

subsection \<open>Missing neighbours\<close>

lemma missing_neighbors_shape:
  assumes "missing_neighbors asf arch col scene ex = Inr (missing, q)"
  shows "set missing \<subseteq> {''predecessor'', ''successor''} \<and> q \<le> 1 \<and> (ref ex \<noteq> None \<longrightarrow> q = 0)"
proof -
  obtain start stop where b: "buffer_time (id_start scene) (id_stop scene) 2 = (start, stop)"
    by (cases "buffer_time (id_start scene) (id_stop scene) 2")
  from assms obtain found grp where
    f: "archive_select arch (neighbor_args scene) = Inr found" and
    g: "identify_many col found = Inr grp"
    by (auto simp: missing_neighbors_def b split: sum.splits)
  show ?thesis
  proof (cases "int (length grp) < groupsize ex")
    case False
    with assms f g have "missing = [] \<and> q = 0" by (simp add: missing_neighbors_def b)
    then show ?thesis by simp
  next
    case True
    with assms f g obtain lo hi start_min stop_max where
      "missing = (if lo < start \<and> start < start_min \<and> has_predecessor ex
                  then [''predecessor''] else []) @
                 (if stop_max < stop \<and> stop < hi \<and> has_successor ex
                  then [''successor''] else [])"
      "q = (if ref ex = None then 1 else 0)"
      by (auto simp: missing_neighbors_def b split: sum.splits prod.splits)
    then show ?thesis by auto
  qed
qed

text \<open>
  Claim C5, as amended. For a scene whose group in the archive (same sensor, product and
  mode within the window widened by two seconds, loose dates) is not empty and is smaller
  than the expected size, with the reference group at hand (the one fetched in the first
  part, or else queried now, once): \<^verbatim>\<open>predecessor\<close> is flagged missing exactly when a
  predecessor was expected and the widened start of the scene lies strictly between the
  least start of the reference group and the least start of the archive group;
  \<^verbatim>\<open>successor\<close> is flagged missing exactly when a successor was expected and the widened
  stop of the scene lies strictly between the greatest stop of the archive group and the
  greatest stop of the reference group. A group of the expected size or larger raises no
  flag and no query. No pass of the loop queries the reference catalog more than once.
\<close>

theorem missing_neighbors_flags:
  assumes "archive_select arch (neighbor_args scene) = Inr found"
    and "identify_many col found = Inr grp"
    and "grp \<noteq> []"
    and "(case ref ex of None \<Rightarrow> reference_group asf scene | Some names \<Rightarrow> Inr names) = Inr names"
    and "ref_bounds (scene_pattern col) names = Inr (ref_start_min, ref_stop_max)"
  shows "(int (length grp) < groupsize ex \<longrightarrow>
            (\<exists>missing. missing_neighbors asf arch col scene ex =
                         Inr (missing, if ref ex = None then 1 else 0) \<and>
               set missing \<subseteq> {''predecessor'', ''successor''} \<and>
               (''predecessor'' \<in> set missing) =
                 (has_predecessor ex \<and> ref_start_min < id_start scene - 2000000 \<and>
                  id_start scene - 2000000 < Min (id_start ` set grp)) \<and>
               (''successor'' \<in> set missing) =
                 (has_successor ex \<and> Max (id_stop ` set grp) < id_stop scene + 2000000 \<and>
                  id_stop scene + 2000000 < ref_stop_max))) \<and>
         (\<not> int (length grp) < groupsize ex \<longrightarrow>
            missing_neighbors asf arch col scene ex = Inr ([], 0)) \<and>
         (\<forall>message queries. check_scene asf arch col scene = Inr (message, queries) \<longrightarrow>
            queries \<le> 1)"
proof (intro conjI impI allI)
  assume small: "int (length grp) < groupsize ex"
  have mn: "py_min (map id_start grp) = Inr (Min (id_start ` set grp))"
    using assms(3) py_min_Min [of "map id_start grp"] by simp
  have mx: "py_max (map id_stop grp) = Inr (Max (id_stop ` set grp))"
    using assms(3) py_max_Max [of "map id_stop grp"] by simp
  let ?missing = "(if ref_start_min < id_start scene - 2000000 \<and>
                      id_start scene - 2000000 < Min (id_start ` set grp) \<and> has_predecessor ex
                   then [''predecessor''] else []) @
                  (if Max (id_stop ` set grp) < id_stop scene + 2000000 \<and>
                      id_stop scene + 2000000 < ref_stop_max \<and> has_successor ex
                   then [''successor''] else [])"
  have r: "missing_neighbors asf arch col scene ex = Inr (?missing, if ref ex = None then 1 else 0)"
    using assms(1,2,4,5) small mn mx
    by (simp add: missing_neighbors_def buffer_time_def)
  have p: "(''predecessor'' \<in> set ?missing) =
                 (has_predecessor ex \<and> ref_start_min < id_start scene - 2000000 \<and>
                  id_start scene - 2000000 < Min (id_start ` set grp))" by auto
  have s: "(''successor'' \<in> set ?missing) =
                 (has_successor ex \<and> Max (id_stop ` set grp) < id_stop scene + 2000000 \<and>
                  id_stop scene + 2000000 < ref_stop_max)" by auto
  have sub: "set ?missing \<subseteq> {''predecessor'', ''successor''}" by auto
  from r sub p s
  show "\<exists>missing. missing_neighbors asf arch col scene ex =
                         Inr (missing, if ref ex = None then 1 else 0) \<and>
               set missing \<subseteq> {''predecessor'', ''successor''} \<and>
               (''predecessor'' \<in> set missing) =
                 (has_predecessor ex \<and> ref_start_min < id_start scene - 2000000 \<and>
                  id_start scene - 2000000 < Min (id_start ` set grp)) \<and>
               (''successor'' \<in> set missing) =
                 (has_successor ex \<and> Max (id_stop ` set grp) < id_stop scene + 2000000 \<and>
                  id_stop scene + 2000000 < ref_stop_max)"
    by (intro exI [of _ ?missing] conjI)
next
  assume "\<not> int (length grp) < groupsize ex"
  then show "missing_neighbors asf arch col scene ex = Inr ([], 0)"
    using assms(1,2) by (simp add: missing_neighbors_def buffer_time_def)
next
  fix message queries
  assume "check_scene asf arch col scene = Inr (message, queries)"
  then obtain ex' missing q where
    m: "missing_neighbors asf arch col scene ex' = Inr (missing, q)"
    and qs: "queries = (if ref ex' = None then 0 else 1) + q"
    by (auto simp: check_scene_def split: sum.splits prod.splits)
  from missing_neighbors_shape [OF m] qs show "queries \<le> 1" by (cases "ref ex' = None") auto
qed

theorem missing_neighbors_flags_witness:
  "missing_neighbors asf1 archS col0 scA exW = Inr ([''predecessor''], 0) \<and>
   missing_neighbors asf1 archS col0 scA (exW\<lparr>groupsize := 1\<rparr>) = Inr ([], 0) \<and>
   check_scene asf1 archS col0 scA = Inr (None, 1)"
proof -
  have h1: "archive_select archS (neighbor_args scA) = Inr (Locs [sA])"
    by (simp add: archS_def archive_select_def)
  have h2: "identify_many col0 (Locs [sA]) = Inr [scA]" by (simp add: col0_def)
  have h3: "[scA] \<noteq> []" by simp
  have h4: "(case ref ex of None \<Rightarrow> reference_group asf1 scA | Some names \<Rightarrow> Inr names) =
      Inr [''SCENE_A'', ''SCENE_P'']" if "ref ex = Some [''SCENE_A'', ''SCENE_P'']" for ex
    using that by simp
  have h5: "ref_bounds (scene_pattern col0) [''SCENE_A'', ''SCENE_P''] = Inr (75000000, 125000000)"
    by code_simp
  have s: "id_start scA = 100000000" "id_stop scA = 125000000" by (simp_all add: scA_def)
  have e: "ref exW = Some [''SCENE_A'', ''SCENE_P'']" "groupsize exW = 3" "has_predecessor exW"
    "has_successor exW" by (simp_all add: exW_def)
  have e': "ref (exW\<lparr>groupsize := 1\<rparr>) = Some [''SCENE_A'', ''SCENE_P'']"
    "groupsize (exW\<lparr>groupsize := 1\<rparr>) = 1" by (simp_all add: exW_def)
  note t = missing_neighbors_flags [OF h1 h2 h3 h4 h5, of exW, OF e(1)]
  note t' = missing_neighbors_flags [OF h1 h2 h3 h4 h5, of "exW\<lparr>groupsize := 1\<rparr>", OF e'(1)]
  from t [THEN conjunct1] e s obtain missing where
    m: "missing_neighbors asf1 archS col0 scA exW = Inr (missing, 0)"
    "set missing \<subseteq> {''predecessor'', ''successor''}"
    "''predecessor'' \<in> set missing" "''successor'' \<notin> set missing"
    by auto
  have v: "missing_neighbors asf1 archS col0 scA exW = Inr ([''predecessor''], 0)" by code_simp
  have 2: "missing_neighbors asf1 archS col0 scA (exW\<lparr>groupsize := 1\<rparr>) = Inr ([], 0)"
    using t' [THEN conjunct2, THEN conjunct1] e' by simp
  have c: "check_scene asf1 archS col0 scA = Inr (None, 1)" by code_simp
  have "(1::nat) \<le> 1"
    using t [THEN conjunct2, THEN conjunct2, rule_format, OF c] .
  with v 2 c show ?thesis by simp
qed

text \<open>
  The claim as stated compares the least start of the reference group with that of the
  archive group only. Here a predecessor is expected, the archive group is \<open>A\<close> alone, and
  the reference group starts one second before it, within the two seconds of the buffer:
  the code raises no flag.
\<close>

theorem missing_neighbors_counterexample:
  "expected_group asf2 col0 scA =
     Inr \<lparr>groupsize = 3, has_predecessor = True, has_successor = True, ref = None\<rparr> \<and>
   archive_select archS (neighbor_args scA) = Inr (Locs [sA]) \<and>
   identify_many col0 (Locs [sA]) = Inr [scA] \<and>
   reference_group asf2 scA = Inr [''SCENE_A'', ''SCENE_X''] \<and>
   ref_bounds (scene_pattern col0) [''SCENE_A'', ''SCENE_X''] = Inr (99000000, 125000000) \<and>
   (99000000 :: int) < id_start scA \<and>
   missing_neighbors asf2 archS col0 scA
     \<lparr>groupsize = 3, has_predecessor = True, has_successor = True, ref = None\<rparr> = Inr ([], 1) \<and>
   check_scene asf2 archS col0 scA = Inr (None, 1)"
  by code_simp

subsection \<open>The report of the completeness check\<close>










subsection \<open>Scene selection\<close>

lemma select_per_tile_ok:
  "select_per_tile arch args vec selection = (Inr out, calls) \<Longrightarrow>
   calls = map (\<lambda>item. args\<lparr>q_vectorobject := Some (Vector item)\<rparr>) vec \<and>
   (\<exists>results. list_all2 (\<lambda>call r. archive_select arch call = Inr (Locs r)) calls results \<and>
      out = selection @ concat results)"
proof (induction vec arbitrary: selection out calls)
  case Nil
  then show ?case by simp
next
  case (Cons item vec)
  let ?call = "args\<lparr>q_vectorobject := Some (Vector item)\<rparr>"
  from Cons.prems obtain found calls' where
    f: "archive_select arch ?call = Inr (Locs found)" and
    r: "select_per_tile arch args vec (selection @ found) = (Inr out, calls')" and
    c: "calls = ?call # calls'"
    by (auto simp: Let_def split: if_splits sum.splits sel_result.splits prod.splits)
  from Cons.IH [OF r] obtain results where
    ih: "calls' = map (\<lambda>item. args\<lparr>q_vectorobject := Some (Vector item)\<rparr>) vec"
    "list_all2 (\<lambda>call r. archive_select arch call = Inr (Locs r)) calls' results"
    "out = (selection @ found) @ concat results" by blast
  have "list_all2 (\<lambda>call r. archive_select arch call = Inr (Locs r)) calls (found # results)"
    using f ih(2) c by simp
  moreover have "out = selection @ concat (found # results)" using ih(3) by simp
  moreover have "calls = map (\<lambda>item. args\<lparr>q_vectorobject := Some (Vector item)\<rparr>) (item # vec)"
    using c ih(1) by simp
  ultimately show ?case by blast
qed

lemma scene_select_sorted:
  "scene_select arch col aoi_tiles aoi_geometry kwargs = (Inr (scenes, tiles), calls) \<Longrightarrow>
   \<exists>selection. scenes = sort (remdups selection)"
  by (auto simp: scene_select_def Let_def split: option.splits sum.splits prod.splits)

text \<open>
  Claim C7. The scene list of every successful \<^verbatim>\<open>scene_select\<close> call is sorted in
  ascending order of the locations and has no duplicate. When tiles are given with
  \<^verbatim>\<open>aoi_tiles\<close>, the tiles returned are the tiles given, unchanged; there is one \<^verbatim>\<open>select\<close>
  call for each tile given, in their order, each with the geometry of its tile; and the
  scene list is the sorted list of the distinct members of all their selections.
\<close>

theorem scene_select_result:
  assumes "scene_select arch col aoi_tiles aoi_geometry kwargs = (Inr (scenes, tiles), calls)"
  shows "sorted scenes \<and> distinct scenes \<and>
     (\<forall>given. aoi_tiles = Some given \<longrightarrow>
        tiles = given \<and>
        (\<exists>vec results.
           list_all2 (\<lambda>name item. tile_geometry col name = Inr item) (arg_values given) vec \<and>
           calls = map (\<lambda>item.
                     (if is_ASFArchive arch
                      then (prepare_args arch kwargs)\<lparr>q_return_value := Some (RetKey ''url'')\<rparr>
                      else prepare_args arch kwargs)\<lparr>q_vectorobject := Some (Vector item)\<rparr>) vec \<and>
           length calls = length (arg_values given) \<and>
           list_all2 (\<lambda>call r. archive_select arch call = Inr (Locs r)) calls results \<and>
           scenes = sort (remdups (concat results))))"
proof (intro conjI allI impI)
  from scene_select_sorted [OF assms] obtain selection where s: "scenes = sort (remdups selection)"
    by blast
  show "sorted scenes" by (simp add: s)
  show "distinct scenes" by (simp add: s)
next
  fix given assume g: "aoi_tiles = Some given"
  let ?args2 = "if is_ASFArchive arch
                then (prepare_args arch kwargs)\<lparr>q_return_value := Some (RetKey ''url'')\<rparr>
                else prepare_args arch kwargs"
  from assms g obtain vec selection where
    v: "aoi_from_tile col given = Inr vec" and
    p: "select_per_tile arch ?args2 vec [] = (Inr selection, calls)" and
    t: "tiles = given" and s: "scenes = sort (remdups selection)"
    by (auto simp: scene_select_def Let_def split: sum.splits prod.splits if_splits)
  show "tiles = given" by (rule t)
  from select_per_tile_ok [OF p] obtain results where
    c: "calls = map (\<lambda>item. ?args2\<lparr>q_vectorobject := Some (Vector item)\<rparr>) vec" and
    r: "list_all2 (\<lambda>call r. archive_select arch call = Inr (Locs r)) calls results" and
    o: "selection = [] @ concat results" by blast
  have la: "list_all2 (\<lambda>name item. tile_geometry col name = Inr item) (arg_values given) vec"
    using v unfolding aoi_from_tile_def by (rule map_err_all2)
  have len: "length calls = length (arg_values given)"
    using list_all2_lengthD [OF la] c by simp
  have sc: "scenes = sort (remdups (concat results))" using s o by simp
  from la c len r sc
  show "\<exists>vec results.
           list_all2 (\<lambda>name item. tile_geometry col name = Inr item) (arg_values given) vec \<and>
           calls = map (\<lambda>item.
                     (if is_ASFArchive arch
                      then (prepare_args arch kwargs)\<lparr>q_return_value := Some (RetKey ''url'')\<rparr>
                      else prepare_args arch kwargs)\<lparr>q_vectorobject := Some (Vector item)\<rparr>) vec \<and>
           length calls = length (arg_values given) \<and>
           list_all2 (\<lambda>call r. archive_select arch call = Inr (Locs r)) calls results \<and>
           scenes = sort (remdups (concat results))"
    by (intro exI [of _ vec] exI [of _ results] conjI)
qed

theorem scene_select_result_witness:
  "scene_select archT col2 (Some (Multiple [''32TPS'', ''32TPT''])) None no_args =
     (Inr ([sA, sA2, sB], Multiple [''32TPS'', ''32TPT'']),
      [no_args\<lparr>q_vectorobject := Some (Vector tile0)\<rparr>,
       no_args\<lparr>q_vectorobject := Some (Vector tile1)\<rparr>]) \<and>
   sorted [sA, sA2, sB] \<and> distinct [sA, sA2, sB]"
proof -
  have v: "scene_select archT col2 (Some (Multiple [''32TPS'', ''32TPT''])) None no_args =
     (Inr ([sA, sA2, sB], Multiple [''32TPS'', ''32TPT'']),
      [no_args\<lparr>q_vectorobject := Some (Vector tile0)\<rparr>,
       no_args\<lparr>q_vectorobject := Some (Vector tile1)\<rparr>])" by code_simp
  from scene_select_result [OF v] have "sorted [sA, sA2, sB] \<and> distinct [sA, sA2, sB]" by blast
  with v show ?thesis by blast
qed

lemma first_search_ok:
  assumes "first_search arch col args = (Inr (vec, tiles, args1), calls)"
  shows "\<exists>selection_tmp recs.
           archive_select arch args = Inr selection_tmp \<and>
           (case selection_tmp of
              Recs found \<Rightarrow> recs = found
            | other \<Rightarrow> identify_many col other = Inr recs) \<and>
           recs \<noteq> [] \<and>
           tile_from_aoi col (map id_geometry recs) = Inr vec \<and>
           tiles = Multiple (map mgrs vec) \<and>
           args1 = args\<lparr>q_mindate := Some (Min (id_start ` set recs) - 60000000),
                       q_maxdate := Some (Max (id_stop ` set recs) + 60000000)\<rparr> \<and>
           calls = [args]"
proof -
  from assms have nv: "q_vectorobject args = None" and calls: "calls = [args]"
    by (auto simp: first_search_def split: if_splits)
  from assms nv obtain selection_tmp recs earliest latest where
    sel: "archive_select arch args = Inr selection_tmp" and
    recs: "(case selection_tmp of
              Locs [] \<Rightarrow> Inl IndexError
            | Tuples [] \<Rightarrow> Inl IndexError
            | Recs [] \<Rightarrow> Inl IndexError
            | Recs found \<Rightarrow> Inr found
            | other \<Rightarrow> identify_many col other) = Inr recs" and
    vec: "tile_from_aoi col (map id_geometry recs) = Inr vec" and
    lo: "py_min (map id_start recs) = Inr earliest" and
    hi: "py_max (map id_stop recs) = Inr latest" and
    t: "tiles = Multiple (map mgrs vec)" and
    a: "args1 = args\<lparr>q_mindate := Some (earliest - 60000000),
                      q_maxdate := Some (latest + 60000000)\<rparr>"
    by (simp add: first_search_def split: sum.splits)
  from py_min_Inr [OF lo] have ne: "recs \<noteq> []" and lo': "earliest = Min (id_start ` set recs)"
    by auto
  from py_max_Inr [OF hi] have hi': "latest = Max (id_stop ` set recs)" by auto
  have r: "(case selection_tmp of
              Recs found \<Rightarrow> recs = found
            | other \<Rightarrow> identify_many col other = Inr recs)"
    using recs by (auto split: sel_result.splits list.splits)
  from sel r ne vec t a lo' hi' calls show ?thesis by blast
qed

text \<open>
  Claim C8. A successful \<^verbatim>\<open>scene_select\<close> call with neither tiles nor a geometry makes one
  search without a geometry; the tiles returned and the geometries of the second search
  are those of \<^verbatim>\<open>tile_from_aoi\<close> over the footprints of the scene records of that first
  search, and of nothing else; the second search is one \<^verbatim>\<open>select\<close> call for each of those
  tiles, in their order, with the geometry of the tile and the window from the earliest
  start minus one minute to the latest stop plus one minute of the records of the first
  search; the scene list is the sorted list of the distinct members of the selections of
  the second search.
\<close>

theorem scene_select_two_phase:
  assumes "scene_select arch col None None kwargs = (Inr (scenes, tiles), calls)"
  shows "\<exists>selection_tmp recs vec results.
           archive_select arch (prepare_args arch kwargs) = Inr selection_tmp \<and>
           (case selection_tmp of
              Recs found \<Rightarrow> recs = found
            | other \<Rightarrow> identify_many col other = Inr recs) \<and>
           recs \<noteq> [] \<and>
           tile_from_aoi col (map id_geometry recs) = Inr vec \<and>
           tiles = Multiple (map mgrs vec) \<and>
           calls = prepare_args arch kwargs #
                   map (\<lambda>item. (window_args arch kwargs recs)\<lparr>q_vectorobject := Some (Vector item)\<rparr>) vec \<and>
           q_mindate (window_args arch kwargs recs) = Some (Min (id_start ` set recs) - 60000000) \<and>
           q_maxdate (window_args arch kwargs recs) = Some (Max (id_stop ` set recs) + 60000000) \<and>
           list_all2 (\<lambda>call r. archive_select arch call = Inr (Locs r)) (tl calls) results \<and>
           length results = length vec \<and>
           scenes = sort (remdups (concat results))"
proof -
  let ?args = "prepare_args arch kwargs"
  from assms obtain vec args1 calls1 selection calls2 where
    f: "first_search arch col ?args = (Inr (vec, tiles, args1), calls1)" and
    p: "select_per_tile arch
          (if is_ASFArchive arch then args1\<lparr>q_return_value := Some (RetKey ''url'')\<rparr> else args1)
          vec [] = (Inr selection, calls2)" and
    s: "scenes = sort (remdups selection)" and c: "calls = calls1 @ calls2"
    by (auto simp: scene_select_def Let_def split: sum.splits prod.splits)
  from first_search_ok [OF f] obtain selection_tmp recs where
    sel: "archive_select arch ?args = Inr selection_tmp" and
    r: "(case selection_tmp of
              Recs found \<Rightarrow> recs = found
            | other \<Rightarrow> identify_many col other = Inr recs)" and
    ne: "recs \<noteq> []" and
    v: "tile_from_aoi col (map id_geometry recs) = Inr vec" and
    t: "tiles = Multiple (map mgrs vec)" and
    a: "args1 = ?args\<lparr>q_mindate := Some (Min (id_start ` set recs) - 60000000),
                       q_maxdate := Some (Max (id_stop ` set recs) + 60000000)\<rparr>" and
    c1: "calls1 = [?args]" by blast
  have w: "(if is_ASFArchive arch then args1\<lparr>q_return_value := Some (RetKey ''url'')\<rparr> else args1) =
      window_args arch kwargs recs"
    by (simp add: window_args_def Let_def a)
  from select_per_tile_ok [OF p] obtain results where
    c2: "calls2 = map (\<lambda>item. (window_args arch kwargs recs)\<lparr>q_vectorobject := Some (Vector item)\<rparr>) vec" and
    la: "list_all2 (\<lambda>call r. archive_select arch call = Inr (Locs r)) calls2 results" and
    o: "selection = [] @ concat results" unfolding w by blast
  have calls: "calls = ?args #
       map (\<lambda>item. (window_args arch kwargs recs)\<lparr>q_vectorobject := Some (Vector item)\<rparr>) vec"
    using c c1 c2 by simp
  have tl: "list_all2 (\<lambda>call r. archive_select arch call = Inr (Locs r)) (tl calls) results"
    using la c c1 by simp
  have len: "length results = length vec" using list_all2_lengthD [OF la] c2 by simp
  have lo: "q_mindate (window_args arch kwargs recs) = Some (Min (id_start ` set recs) - 60000000)"
    by (simp add: window_args_def Let_def)
  have hi: "q_maxdate (window_args arch kwargs recs) = Some (Max (id_stop ` set recs) + 60000000)"
    by (simp add: window_args_def Let_def)
  have sc: "scenes = sort (remdups (concat results))" using s o by simp
  from sel r ne v t calls lo hi tl len sc show ?thesis
    by (intro exI [of _ selection_tmp] exI [of _ recs] exI [of _ vec] exI [of _ results] conjI)
qed

theorem scene_select_two_phase_witness:
  "scene_select archT col2 None None no_args =
     (Inr ([sA, sA2, sB], Multiple [''32TPS'', ''32TPT'']),
      [no_args,
       no_args\<lparr>q_mindate := Some 40000000, q_maxdate := Some 185000000,
               q_vectorobject := Some (Vector tile0)\<rparr>,
       no_args\<lparr>q_mindate := Some 40000000, q_maxdate := Some 185000000,
               q_vectorobject := Some (Vector tile1)\<rparr>]) \<and>
   (\<exists>recs vec results.
      identify_many col2 (Locs [sA]) = Inr recs \<and>
      tile_from_aoi col2 (map id_geometry recs) = Inr vec \<and>
      Multiple [''32TPS'', ''32TPT''] = Multiple (map mgrs vec) \<and>
      q_mindate (window_args archT no_args recs) = Some (Min (id_start ` set recs) - 60000000) \<and>
      q_maxdate (window_args archT no_args recs) = Some (Max (id_stop ` set recs) + 60000000) \<and>
      length results = length vec \<and>
      [sA, sA2, sB] = sort (remdups (concat results)))"
proof -
  have v: "scene_select archT col2 None None no_args =
     (Inr ([sA, sA2, sB], Multiple [''32TPS'', ''32TPT'']),
      [no_args,
       no_args\<lparr>q_mindate := Some 40000000, q_maxdate := Some 185000000,
               q_vectorobject := Some (Vector tile0)\<rparr>,
       no_args\<lparr>q_mindate := Some 40000000, q_maxdate := Some 185000000,
               q_vectorobject := Some (Vector tile1)\<rparr>])" by code_simp
  have s: "archive_select archT (prepare_args archT no_args) = Inr (Locs [sA])" by code_simp
  from scene_select_two_phase [OF v] obtain selection_tmp recs vec results where
    a: "archive_select archT (prepare_args archT no_args) = Inr selection_tmp"
    "(case selection_tmp of Recs found \<Rightarrow> recs = found
      | other \<Rightarrow> identify_many col2 other = Inr recs)"
    "tile_from_aoi col2 (map id_geometry recs) = Inr vec"
    "Multiple [''32TPS'', ''32TPT''] = Multiple (map mgrs vec)"
    "q_mindate (window_args archT no_args recs) = Some (Min (id_start ` set recs) - 60000000)"
    "q_maxdate (window_args archT no_args recs) = Some (Max (id_stop ` set recs) + 60000000)"
    "length results = length vec"
    "[sA, sA2, sB] = sort (remdups (concat results))"
    by (elim exE conjE) (rule that, assumption+)
  from a(1) s have "selection_tmp = Locs [sA]" by simp
  with a(2) have "identify_many col2 (Locs [sA]) = Inr recs" by simp
  with a(3-8) have "\<exists>recs vec results.
      identify_many col2 (Locs [sA]) = Inr recs \<and>
      tile_from_aoi col2 (map id_geometry recs) = Inr vec \<and>
      Multiple [''32TPS'', ''32TPT''] = Multiple (map mgrs vec) \<and>
      q_mindate (window_args archT no_args recs) = Some (Min (id_start ` set recs) - 60000000) \<and>
      q_maxdate (window_args archT no_args recs) = Some (Max (id_stop ` set recs) + 60000000) \<and>
      length results = length vec \<and>
      [sA, sA2, sB] = sort (remdups (concat results))"
    by (intro exI [of _ recs] exI [of _ vec] exI [of _ results] conjI)
  with v show ?thesis by (intro conjI)
qed

end
